theory Spec2Isabelle
  imports Main
begin

section \<open>Strings of the script\<close>

text \<open>
  The script \<^verbatim>\<open>scripts/download_fonts.py\<close> works on Python \<^verbatim>\<open>str\<close> values. They are
  modelled as \<^typ>\<open>string\<close>, one \<^typ>\<open>char\<close> per code point, which covers the code points
  below 256 (ASCII and Latin-1). The character classes below are the ones of CPython on
  that range: \<^verbatim>\<open>str.strip()\<close>, \<^verbatim>\<open>str.isspace()\<close> and the pattern \<^verbatim>\<open>\s\<close> of a \<^verbatim>\<open>str\<close>
  pattern agree on the white space characters 0x09-0x0D, 0x1C-0x20, 0x85 and 0xA0;
  \<^verbatim>\<open>str.lower()\<close> maps A-Z and the Latin-1 capitals 0xC0-0xDE (without 0xD7) to the
  character 32 places further on and keeps every other character.
\<close>

definition dq :: char where
  "dq = CHR 0x22"

definition sq :: char where
  "sq = CHR 0x27"

definition is_space :: "char \<Rightarrow> bool" where
  "is_space c =
     (let n = (of_char c :: nat)
      in (9 \<le> n \<and> n \<le> 13) \<or> (28 \<le> n \<and> n \<le> 32) \<or> n = 133 \<or> n = 160)"

definition is_upper_az :: "char \<Rightarrow> bool" where
  "is_upper_az c = (let n = (of_char c :: nat) in 65 \<le> n \<and> n \<le> 90)"

definition is_lower_az :: "char \<Rightarrow> bool" where
  "is_lower_az c = (let n = (of_char c :: nat) in 97 \<le> n \<and> n \<le> 122)"

definition is_digit :: "char \<Rightarrow> bool" where
  "is_digit c = (let n = (of_char c :: nat) in 48 \<le> n \<and> n \<le> 57)"

definition is_alpha_az :: "char \<Rightarrow> bool" where
  "is_alpha_az c = (is_upper_az c \<or> is_lower_az c)"

definition is_alnum_az :: "char \<Rightarrow> bool" where
  "is_alnum_az c = (is_digit c \<or> is_alpha_az c)"

text \<open>The class \<^verbatim>\<open>[0-9A-Za-z_]\<close>.\<close>

definition is_ident_char :: "char \<Rightarrow> bool" where
  "is_ident_char c = (is_alnum_az c \<or> c = CHR ''_'')"

text \<open>\<^verbatim>\<open>str.lower()\<close>, one character at a time.\<close>

definition lower_char :: "char \<Rightarrow> char" where
  "lower_char c =
     (let n = (of_char c :: nat)
      in if (65 \<le> n \<and> n \<le> 90) \<or> (192 \<le> n \<and> n \<le> 222 \<and> n \<noteq> 215)
         then char_of (n + 32) else c)"

definition lower :: "string \<Rightarrow> string" where
  "lower s = map lower_char s"

text \<open>
  \<^verbatim>\<open>str.upper()\<close> on the characters the script applies it to: \<^verbatim>\<open>to_pascal_case\<close> calls it
  on the first character of a fragment of \<^verbatim>\<open>[0-9A-Za-z]\<close> only, where it maps a-z to A-Z
  and keeps digits and capitals.
\<close>

definition upper_char :: "char \<Rightarrow> char" where
  "upper_char c = (if is_lower_az c then char_of ((of_char c :: nat) - 32) else c)"

definition upper :: "string \<Rightarrow> string" where
  "upper s = map upper_char s"

text \<open>\<^verbatim>\<open>str.strip()\<close> without argument.\<close>

definition lstrip :: "string \<Rightarrow> string" where
  "lstrip s = dropWhile is_space s"

definition rstrip :: "string \<Rightarrow> string" where
  "rstrip s = rev (dropWhile is_space (rev s))"

definition strip :: "string \<Rightarrow> string" where
  "strip s = rstrip (lstrip s)"

text \<open>\<^verbatim>\<open>s.startswith(c)\<close> and \<^verbatim>\<open>s.endswith(c)\<close> for a one-character string \<^verbatim>\<open>c\<close>.\<close>

definition startswith :: "string \<Rightarrow> char \<Rightarrow> bool" where
  "startswith s c = (case s of [] \<Rightarrow> False | x # _ \<Rightarrow> x = c)"

definition endswith :: "string \<Rightarrow> char \<Rightarrow> bool" where
  "endswith s c = (case rev s of [] \<Rightarrow> False | x # _ \<Rightarrow> x = c)"

section \<open>Value normalisation\<close>

text \<open>
  \<^verbatim>\<open>
  def clean_value(value):
      value = value.strip()
      if (value.startswith("\"") and value.endswith("\"")) or (
              value.startswith("'") and value.endswith("'")
      ):
          return value[1:-1]
      return value
  \<close>
  The slice \<^verbatim>\<open>value[1:-1]\<close> of a non-empty string drops its first and its last character;
  on a string of one character it is empty.
\<close>

definition clean_value :: "string \<Rightarrow> string" where
  "clean_value value0 =
     (let v = strip value0
      in if (startswith v dq \<and> endswith v dq) \<or> (startswith v sq \<and> endswith v sq)
         then butlast (tl v) else v)"

text \<open>
  \<^verbatim>\<open>
  def to_valid_identifier(name):
      safe = re.sub(r"[^0-9A-Za-z_]", "_", name)
      if not safe or not (safe[0].isalpha() or safe[0] == "_"):
          safe = "_" + safe
      return safe
  \<close>
  After the substitution \<^verbatim>\<open>safe\<close> holds characters of \<^verbatim>\<open>[0-9A-Za-z_]\<close> only, where
  \<^verbatim>\<open>isalpha\<close> is the test for A-Z and a-z.
\<close>

definition to_valid_identifier :: "string \<Rightarrow> string" where
  "to_valid_identifier name =
     (let safe = map (\<lambda>c. if is_ident_char c then c else CHR ''_'') name
      in if safe = [] \<or> \<not> (is_alpha_az (hd safe) \<or> hd safe = CHR ''_'')
         then CHR ''_'' # safe else safe)"

text \<open>
  The resource name of a downloaded font, lines 156 to 158 of \<^verbatim>\<open>main\<close>:
  \<^verbatim>\<open>
  resource_name = to_valid_identifier(h)
  if not resource_name.startswith("_"):
      resource_name = "_" + resource_name
  \<close>
\<close>

definition resource_name_of :: "string \<Rightarrow> string" where
  "resource_name_of h =
     (let r = to_valid_identifier h
      in if \<not> startswith r (CHR ''_'') then CHR ''_'' # r else r)"

section \<open>The three patterns\<close>

text \<open>
  \<^verbatim>\<open>
  FONT_FACE_RE = re.compile(r"@font-face\s*{([^}]*)}", re.DOTALL | re.IGNORECASE)
  PROP_RE = re.compile(r"([a-zA-Z-]+)\s*:\s*([^;]+);", re.IGNORECASE)
  URL_RE = re.compile(r"url\(([^)]+)\)", re.IGNORECASE)
  \<close>
  Each pattern gets a function that tries it at the start of a text, as the engine does
  at one position, and returns its groups and the text after the match; \<^verbatim>\<open>findall\<close> then
  scans from left to right: after a match it goes on behind it, otherwise one character
  further. No pattern matches the empty text, so the engine's rule for empty matches
  plays no role.

  A literal under \<^verbatim>\<open>re.IGNORECASE\<close> matches a character whose lower case is the lower
  case of the literal.
\<close>

definition match_literal_ci :: "string \<Rightarrow> string \<Rightarrow> string option" where
  "match_literal_ci lit s =
     (if length lit \<le> length s \<and> lower (take (length lit) s) = lower lit
      then Some (drop (length lit) s) else None)"

text \<open>
  \<^verbatim>\<open>@font-face\s*{([^}]*)}\<close>: the greedy \<^verbatim>\<open>\s*\<close> takes all white space, since a shorter choice
  leaves a white space character where \<^verbatim>\<open>{\<close> is required; the greedy \<^verbatim>\<open>[^}]*\<close> runs to the
  first \<^verbatim>\<open>}\<close>, and there is no match when the text ends before one.
\<close>

definition FONT_FACE_RE_match :: "string \<Rightarrow> (string \<times> string) option" where
  "FONT_FACE_RE_match s =
     (case match_literal_ci ''@font-face'' s of
        None \<Rightarrow> None
      | Some r \<Rightarrow>
          (case dropWhile is_space r of
             [] \<Rightarrow> None
           | c # r2 \<Rightarrow>
               if c \<noteq> CHR ''{'' then None
               else (case dropWhile (\<lambda>x. x \<noteq> CHR ''}'') r2 of
                       [] \<Rightarrow> None
                     | _ # rest \<Rightarrow> Some (takeWhile (\<lambda>x. x \<noteq> CHR ''}'') r2, rest))))"

function FONT_FACE_RE_findall :: "string \<Rightarrow> string list" where
  "FONT_FACE_RE_findall s =
     (case FONT_FACE_RE_match s of
        Some (body, rest) \<Rightarrow> body # FONT_FACE_RE_findall rest
      | None \<Rightarrow> (case s of [] \<Rightarrow> [] | _ # t \<Rightarrow> FONT_FACE_RE_findall t))"
  by pat_completeness auto
termination
proof (relation "measure length")
  show "wf (measure length)" by simp
next
  fix s :: string and x2 body rest
  assume m: "FONT_FACE_RE_match s = Some x2" and x: "(body, rest) = x2"
  from m x obtain r c r2 where r: "match_literal_ci ''@font-face'' s = Some r"
    and d: "dropWhile is_space r = c # r2"
    and e: "dropWhile (\<lambda>x. x \<noteq> CHR ''}'') r2 = (hd (dropWhile (\<lambda>x. x \<noteq> CHR ''}'') r2)) # rest"
    by (auto simp: FONT_FACE_RE_match_def split: option.splits list.splits if_splits)
  have "length r \<le> length s"
    using r by (auto simp: match_literal_ci_def split: if_splits)
  moreover have "length (c # r2) \<le> length r"
    using length_dropWhile_le [of is_space r] d by simp
  moreover have "length (hd (dropWhile (\<lambda>x. x \<noteq> CHR ''}'') r2) # rest) \<le> length r2"
    using length_dropWhile_le [of "\<lambda>x. x \<noteq> CHR ''}''" r2] e by simp
  ultimately show "(rest, s) \<in> measure length" by simp
next
  fix s :: string and x21 x22
  assume "s = x21 # x22"
  then show "(x22, s) \<in> measure length" by simp
qed

text \<open>The class \<^verbatim>\<open>[a-zA-Z-]\<close>.\<close>

definition is_prop_name_char :: "char \<Rightarrow> bool" where
  "is_prop_name_char c = (is_alpha_az c \<or> c = CHR ''-'')"

text \<open>
  \<^verbatim>\<open>([a-zA-Z-]+)\s*:\s*([^;]+);\<close>: the name is the longest run of name characters, then
  white space and the colon. Behind the colon the greedy \<^verbatim>\<open>\s*\<close> takes all white space and
  \<^verbatim>\<open>[^;]+\<close> the rest up to the first \<^verbatim>\<open>;\<close>. When nothing is left for \<^verbatim>\<open>[^;]+\<close> the engine
  backtracks: \<^verbatim>\<open>\s*\<close> gives its last character back, which becomes the value; with no
  white space either, or no \<^verbatim>\<open>;\<close> in the rest of the text, there is no match here.
\<close>

definition PROP_RE_match :: "string \<Rightarrow> ((string \<times> string) \<times> string) option" where
  "PROP_RE_match s =
     (let name = takeWhile is_prop_name_char s
      in if name = [] then None
         else (case dropWhile is_space (dropWhile is_prop_name_char s) of
                 [] \<Rightarrow> None
               | c # r \<Rightarrow>
                   if c \<noteq> CHR '':'' then None
                   else (let ws = takeWhile is_space r;
                             r' = dropWhile is_space r;
                             v = takeWhile (\<lambda>x. x \<noteq> CHR '';'') r'
                         in case dropWhile (\<lambda>x. x \<noteq> CHR '';'') r' of
                              [] \<Rightarrow> None
                            | _ # rest \<Rightarrow>
                                if v \<noteq> [] then Some ((name, v), rest)
                                else if ws \<noteq> [] then Some ((name, [last ws]), rest)
                                else None)))"

function PROP_RE_findall :: "string \<Rightarrow> (string \<times> string) list" where
  "PROP_RE_findall s =
     (case PROP_RE_match s of
        Some (pair, rest) \<Rightarrow> pair # PROP_RE_findall rest
      | None \<Rightarrow> (case s of [] \<Rightarrow> [] | _ # t \<Rightarrow> PROP_RE_findall t))"
  by pat_completeness auto
termination
proof (relation "measure length")
  show "wf (measure length)" by simp
next
  fix s :: string and x2 pair rest
  assume m: "PROP_RE_match s = Some x2" and x: "(pair, rest) = x2"
  from m x obtain c r where d: "dropWhile is_space (dropWhile is_prop_name_char s) = c # r"
    and e: "dropWhile (\<lambda>x. x \<noteq> CHR '';'') (dropWhile is_space r)
            = hd (dropWhile (\<lambda>x. x \<noteq> CHR '';'') (dropWhile is_space r)) # rest"
    by (auto simp: PROP_RE_match_def Let_def split: option.splits list.splits if_splits)
  have "length (c # r) \<le> length (dropWhile is_prop_name_char s)"
    using length_dropWhile_le [of is_space "dropWhile is_prop_name_char s"] d by simp
  moreover have "length (dropWhile is_prop_name_char s) \<le> length s"
    by (rule length_dropWhile_le)
  moreover have "length (hd (dropWhile (\<lambda>x. x \<noteq> CHR '';'') (dropWhile is_space r)) # rest)
                 \<le> length (dropWhile is_space r)"
    using length_dropWhile_le [of "\<lambda>x. x \<noteq> CHR '';''" "dropWhile is_space r"] e by simp
  moreover have "length (dropWhile is_space r) \<le> length r"
    by (rule length_dropWhile_le)
  ultimately show "(rest, s) \<in> measure length" by simp
next
  fix s :: string and x21 x22
  assume "s = x21 # x22"
  then show "(x22, s) \<in> measure length" by simp
qed

text \<open>\<^verbatim>\<open>url\(([^)]+)\)\<close>: the literal, then at least one character up to the first \<^verbatim>\<open>)\<close>.\<close>

definition URL_RE_match :: "string \<Rightarrow> (string \<times> string) option" where
  "URL_RE_match s =
     (case match_literal_ci ''url('' s of
        None \<Rightarrow> None
      | Some r \<Rightarrow>
          (case dropWhile (\<lambda>x. x \<noteq> CHR '')'') r of
             [] \<Rightarrow> None
           | _ # rest \<Rightarrow>
               if takeWhile (\<lambda>x. x \<noteq> CHR '')'') r = [] then None
               else Some (takeWhile (\<lambda>x. x \<noteq> CHR '')'') r, rest)))"

function URL_RE_findall :: "string \<Rightarrow> string list" where
  "URL_RE_findall s =
     (case URL_RE_match s of
        Some (u, rest) \<Rightarrow> u # URL_RE_findall rest
      | None \<Rightarrow> (case s of [] \<Rightarrow> [] | _ # t \<Rightarrow> URL_RE_findall t))"
  by pat_completeness auto
termination
proof (relation "measure length")
  show "wf (measure length)" by simp
next
  fix s :: string and x2 u rest
  assume m: "URL_RE_match s = Some x2" and x: "(u, rest) = x2"
  from m x obtain r where r: "match_literal_ci ''url('' s = Some r"
    and e: "dropWhile (\<lambda>x. x \<noteq> CHR '')'') r = hd (dropWhile (\<lambda>x. x \<noteq> CHR '')'') r) # rest"
    by (auto simp: URL_RE_match_def split: option.splits list.splits if_splits)
  have "length r \<le> length s"
    using r by (auto simp: match_literal_ci_def split: if_splits)
  moreover have "length (hd (dropWhile (\<lambda>x. x \<noteq> CHR '')'') r) # rest) \<le> length r"
    using length_dropWhile_le [of "\<lambda>x. x \<noteq> CHR '')''" r] e by simp
  ultimately show "(rest, s) \<in> measure length" by simp
next
  fix s :: string and x21 x22
  assume "s = x21 # x22"
  then show "(x22, s) \<in> measure length" by simp
qed

section \<open>The font-face parser and its helpers\<close>

text \<open>
  \<^verbatim>\<open>
  def parse_font_faces(css_text):
      faces = []
      for block in FONT_FACE_RE.findall(css_text):
          props = {}
          for name, value in PROP_RE.findall(block):
              props[name.strip().lower()] = value.strip()
          faces.append(props)
      return faces
  \<close>
  A properties dictionary is a map from names to values; the script only looks keys up.
\<close>

type_synonym props = "string \<rightharpoonup> string"

definition set_prop :: "props \<Rightarrow> string \<times> string \<Rightarrow> props" where
  "set_prop props nv = props(lower (strip (fst nv)) \<mapsto> strip (snd nv))"

definition parse_props :: "string \<Rightarrow> props" where
  "parse_props block = foldl set_prop Map.empty (PROP_RE_findall block)"

definition parse_font_faces :: "string \<Rightarrow> props list" where
  "parse_font_faces css_text = map parse_props (FONT_FACE_RE_findall css_text)"

text \<open>
  \<^verbatim>\<open>
  def pick_url(src_value):
      if not src_value:
          return None
      urls = URL_RE.findall(src_value)
      if not urls:
          return None
      return clean_value(urls[0])
  \<close>
  The argument is the result of \<^verbatim>\<open>face.get("src")\<close>: \<^verbatim>\<open>None\<close> or a string.
\<close>

definition pick_url :: "string option \<Rightarrow> string option" where
  "pick_url src_value =
     (case src_value of
        None \<Rightarrow> None
      | Some v \<Rightarrow>
          if v = [] then None
          else (case URL_RE_findall v of [] \<Rightarrow> None | u # _ \<Rightarrow> Some (clean_value u)))"

text \<open>
  \<^verbatim>\<open>
  def parse_weight(value):
      if not value:
          return "normal"
      return clean_value(value).strip().lower()
  \<close>
  \<^verbatim>\<open>parse_style\<close> has the same body; \<^verbatim>\<open>parse_unicode_ranges\<close> returns \<^verbatim>\<open>""\<close> for no
  value and \<^verbatim>\<open>clean_value(value).strip()\<close> otherwise.
\<close>

definition parse_weight :: "string option \<Rightarrow> string" where
  "parse_weight value0 =
     (case value0 of
        None \<Rightarrow> ''normal''
      | Some v \<Rightarrow> if v = [] then ''normal'' else lower (strip (clean_value v)))"

definition parse_style :: "string option \<Rightarrow> string" where
  "parse_style value0 =
     (case value0 of
        None \<Rightarrow> ''normal''
      | Some v \<Rightarrow> if v = [] then ''normal'' else lower (strip (clean_value v)))"

definition parse_unicode_ranges :: "string option \<Rightarrow> string" where
  "parse_unicode_ranges value0 =
     (case value0 of
        None \<Rightarrow> []
      | Some v \<Rightarrow> if v = [] then [] else strip (clean_value v))"

section \<open>Identifiers of the bindings\<close>

text \<open>
  \<^verbatim>\<open>re.split(r"[^0-9A-Za-z]+", name)\<close>: the pieces between the runs of characters outside
  \<^verbatim>\<open>[0-9A-Za-z]\<close>, with an empty piece where the text starts or ends with such a run.
\<close>

function re_split_non_alnum :: "string \<Rightarrow> string list" where
  "re_split_non_alnum s =
     (case dropWhile is_alnum_az s of
        [] \<Rightarrow> [takeWhile is_alnum_az s]
      | c # r \<Rightarrow>
          takeWhile is_alnum_az s # re_split_non_alnum (dropWhile (\<lambda>x. \<not> is_alnum_az x) r))"
  by pat_completeness auto
termination
proof (relation "measure length")
  show "wf (measure length)" by simp
next
  fix s :: string and c r
  assume d: "dropWhile is_alnum_az s = c # r"
  have "length (c # r) \<le> length s"
    using length_dropWhile_le [of is_alnum_az s] d by simp
  moreover have "length (dropWhile (\<lambda>x. \<not> is_alnum_az x) r) \<le> length r"
    by (rule length_dropWhile_le)
  ultimately show "(dropWhile (\<lambda>x. \<not> is_alnum_az x) r, s) \<in> measure length" by simp
qed

text \<open>
  \<^verbatim>\<open>
  def to_pascal_case(name):
      parts = re.split(r"[^0-9A-Za-z]+", name)
      parts = [p for p in parts if p]
      if not parts:
          return "_"
      out = "".join(p[:1].upper() + p[1:] for p in parts)
      return to_valid_identifier(out)
  \<close>
\<close>

definition capitalize_first :: "string \<Rightarrow> string" where
  "capitalize_first p = upper (take 1 p) @ drop 1 p"

definition to_pascal_case :: "string \<Rightarrow> string" where
  "to_pascal_case name =
     (let parts = filter (\<lambda>p. p \<noteq> []) (re_split_non_alnum name)
      in if parts = [] then ''_''
         else to_valid_identifier (concat (map capitalize_first parts)))"

section \<open>The run of the tool\<close>

text \<open>
  What \<^verbatim>\<open>main\<close> takes from the standard library and from the outside world is a record
  of functions: \<^verbatim>\<open>urllib.request.urlopen(url).read()\<close> (no value when it raises),
  \<^verbatim>\<open>bytes.decode("utf-8", errors="replace")\<close>, \<^verbatim>\<open>urllib.parse.urljoin\<close> and the
  \<^verbatim>\<open>path\<close> field of \<^verbatim>\<open>urllib.parse.urlparse\<close> (no value when they raise \<^verbatim>\<open>ValueError\<close>),
  \<^verbatim>\<open>pathlib.Path(p).suffix\<close>, \<^verbatim>\<open>hashlib.sha1(data).hexdigest()\<close>, the encoding of a text
  as UTF-8 that \<^verbatim>\<open>Path.write_text(text, encoding="utf-8")\<close> does, and whether the file
  system lets the output directory be made, a font file be created and the bindings
  file be written. The last field is the file system's answer to which file a path is:
  \<open>in_out_dir E d p\<close> is the name \<open>n\<close> when the path \<open>p\<close> is the file that
  \<^verbatim>\<open>Path(d) / n\<close> is, a file of the directory \<open>d\<close>, and no value when \<open>p\<close> is a file
  elsewhere. A \<^verbatim>\<open>bytes\<close> value is a list of bytes, and \<^typ>\<open>char\<close> is the type of the
  256 bytes.
\<close>

type_synonym bytes = "char list"

record env =
  urlopen_read :: "string \<Rightarrow> bytes option"
  decode_utf8 :: "bytes \<Rightarrow> string"
  urljoin :: "string \<Rightarrow> string \<Rightarrow> string option"
  urlparse_path :: "string \<Rightarrow> string option"
  path_suffix :: "string \<Rightarrow> string"
  sha1_hexdigest :: "bytes \<Rightarrow> string"
  mkdir_ok :: "string \<Rightarrow> bool"
  write_bytes_ok :: "string \<Rightarrow> bool"
  write_text_ok :: "string \<Rightarrow> bool"
  encode_utf8 :: "string \<Rightarrow> bytes"
  in_out_dir :: "string \<Rightarrow> string \<Rightarrow> string option"

datatype error = URLError string | ValueError string | OSError string

text \<open>
  The state a run changes: the files of the output directory by name, the files
  elsewhere by path, and two logs that the claims about downloads and writes are stated
  on, the URLs requested and the names of the font files that the loop over the faces
  has written, in order. A font file that cannot be created leaves the directory as it
  was. The path of the bindings file may be a file of the output directory: then the
  bindings are written there, over a font file of that name if there is one.
\<close>

record world =
  files :: "string \<rightharpoonup> bytes"
  texts :: "string \<rightharpoonup> bytes"
  fetched :: "string list"
  written :: "string list"

record descriptor =
  resource_name :: string
  family :: string
  weight :: string
  style :: string
  ranges :: string

record args =
  css_url :: string
  out_dir :: string
  kotlin_out :: string
  res_package :: string
  kotlin_package :: string

text \<open>\<^verbatim>\<open>sha1_hex(data)\<close> is \<^verbatim>\<open>hashlib.sha1(data).hexdigest()\<close>.\<close>

definition sha1_hex :: "env \<Rightarrow> bytes \<Rightarrow> string" where
  "sha1_hex E data = sha1_hexdigest E data"

text \<open>\<^verbatim>\<open>Path(urllib.parse.urlparse(font_url).path).suffix or ".woff2"\<close>, given the path.\<close>

definition ext_of_path :: "env \<Rightarrow> string \<Rightarrow> string" where
  "ext_of_path E p = (if path_suffix E p = [] then ''.woff2'' else path_suffix E p)"

text \<open>
  The descriptor of a face, lines 165 to 178; \<^verbatim>\<open>face.get("font-family", "Unknown")\<close>
  takes the default for an absent key only.
\<close>

definition make_descriptor :: "props \<Rightarrow> string \<Rightarrow> descriptor" where
  "make_descriptor face rn =
     \<lparr> resource_name = rn,
       family = clean_value (case face ''font-family'' of None \<Rightarrow> ''Unknown'' | Some v \<Rightarrow> v),
       weight = parse_weight (face ''font-weight''),
       style = parse_style (face ''font-style''),
       ranges = parse_unicode_ranges (face ''unicode-range'') \<rparr>"

text \<open>
  \<^verbatim>\<open>
  target = out_dir / filename
  if not target.exists():
      target.write_bytes(data)
  \<close>
\<close>

definition write_font :: "env \<Rightarrow> string \<Rightarrow> bytes \<Rightarrow> world \<Rightarrow> error \<times> world + world" where
  "write_font E filename data w =
     (if files w filename \<noteq> None then Inr w
      else if \<not> write_bytes_ok E filename then Inl (OSError filename, w)
      else Inr (w\<lparr> files := (files w)(filename \<mapsto> data),
                   written := written w @ [filename] \<rparr>))"

text \<open>
  The body of the loop over the faces, lines 147 to 178, on the world and the list
  \<^verbatim>\<open>descriptors\<close>. An exception ends the run: the error comes with the world it leaves.
\<close>

definition process_face ::
  "env \<Rightarrow> string \<Rightarrow> props \<Rightarrow> world \<times> descriptor list
     \<Rightarrow> error \<times> world + world \<times> descriptor list" where
  "process_face E base face st =
     (case st of (w, ds) \<Rightarrow>
      (case pick_url (face ''src'') of
         None \<Rightarrow> Inr (w, ds)
       | Some rel \<Rightarrow>
           if rel = [] then Inr (w, ds)
           else (case urljoin E base rel of
                   None \<Rightarrow> Inl (ValueError rel, w)
                 | Some font_url \<Rightarrow>
                     (let w1 = w\<lparr> fetched := fetched w @ [font_url] \<rparr>
                      in case urlopen_read E font_url of
                           None \<Rightarrow> Inl (URLError font_url, w1)
                         | Some data \<Rightarrow>
                             (case urlparse_path E font_url of
                                None \<Rightarrow> Inl (ValueError font_url, w1)
                              | Some p \<Rightarrow>
                                  (let h = sha1_hex E data;
                                       ext = ext_of_path E p;
                                       rn = resource_name_of h;
                                       filename = rn @ ext
                                   in case write_font E filename data w1 of
                                        Inl e \<Rightarrow> Inl e
                                      | Inr w2 \<Rightarrow>
                                          Inr (w2, ds @ [make_descriptor face rn])))))))"

fun run_faces ::
  "env \<Rightarrow> string \<Rightarrow> props list \<Rightarrow> world \<times> descriptor list
     \<Rightarrow> error \<times> world + world \<times> descriptor list" where
  "run_faces E base [] st = Inr st"
| "run_faces E base (face # faces) st =
     (case process_face E base face st of
        Inl e \<Rightarrow> Inl e
      | Inr st' \<Rightarrow> run_faces E base faces st')"

section \<open>The bindings file\<close>

text \<open>
  \<^verbatim>\<open>
  families = {}
  for d in descriptors:
      families.setdefault(d["family"], []).append(d)
  \<close>
  The dictionary keeps its keys in the order of their first insertion, which the
  emitter follows: it is a list of pairs of a family and its descriptors.
\<close>

fun setdefault_append ::
  "(string \<times> descriptor list) list \<Rightarrow> descriptor \<Rightarrow> (string \<times> descriptor list) list" where
  "setdefault_append [] d = [(family d, [d])]"
| "setdefault_append ((k, items) # rest) d =
     (if k = family d then (k, items @ [d]) # rest
      else (k, items) # setdefault_append rest d)"

definition group_families :: "descriptor list \<Rightarrow> (string \<times> descriptor list) list" where
  "group_families ds = foldl setdefault_append [] ds"

definition descriptor_line :: "descriptor \<Rightarrow> string" where
  "descriptor_line d =
     ''    ResourceFontDescriptor(resource = Res.font.'' @ resource_name d
     @ '', fontFamily = '' @ [dq] @ family d @ [dq]
     @ '', weight = '' @ [dq] @ weight d @ [dq]
     @ '', style = '' @ [dq] @ style d @ [dq]
     @ '', unicodeRanges = '' @ [dq] @ ranges d @ [dq]
     @ ''),''"

definition provider_lines :: "string \<times> descriptor list \<Rightarrow> string list" where
  "provider_lines fam =
     [''val '' @ to_pascal_case (fst fam) @ '' = StaticFontDescriptorProvider('']
     @ map descriptor_line (snd fam)
     @ ['')'']"

definition package_lines :: "args \<Rightarrow> string list" where
  "package_lines a =
     (if kotlin_package a \<noteq> [] then [''package '' @ kotlin_package a, []] else [])"

definition import_lines :: "args \<Rightarrow> string list" where
  "import_lines a =
     [''import '' @ res_package a @ ''.Res'',
      ''import '' @ res_package a @ ''.*'',
      ''import xyz.hyli.klyph.ResourceFontDescriptor'',
      ''import xyz.hyli.klyph.StaticFontDescriptorProvider'',
      []]"

definition kotlin_lines :: "args \<Rightarrow> descriptor list \<Rightarrow> string list" where
  "kotlin_lines a ds =
     package_lines a @ import_lines a
     @ concat (map provider_lines (group_families ds))
     @ [[]]"

text \<open>\<^verbatim>\<open>"\n".join(kotlin_lines)\<close>.\<close>

fun join_lines :: "string list \<Rightarrow> string" where
  "join_lines [] = []"
| "join_lines [l] = l"
| "join_lines (l # ls) = l @ CHR 0x0A # join_lines ls"

text \<open>
  \<^verbatim>\<open>Path(args.kotlin_out).write_text("\n".join(kotlin_lines), encoding="utf-8")\<close>, given the
  text: the file at the path gets the encoded text, whether it is a file of the output
  directory or not and whether it exists or not. \<open>read_bindings\<close> is the content of that
  file in a world.
\<close>

definition write_bindings :: "env \<Rightarrow> args \<Rightarrow> string \<Rightarrow> world \<Rightarrow> world" where
  "write_bindings E a text w =
     (case in_out_dir E (out_dir a) (kotlin_out a) of
        Some n \<Rightarrow> w\<lparr> files := (files w)(n \<mapsto> encode_utf8 E text) \<rparr>
      | None \<Rightarrow> w\<lparr> texts := (texts w)(kotlin_out a \<mapsto> encode_utf8 E text) \<rparr>)"

definition read_bindings :: "env \<Rightarrow> args \<Rightarrow> world \<Rightarrow> bytes option" where
  "read_bindings E a w =
     (case in_out_dir E (out_dir a) (kotlin_out a) of
        Some n \<Rightarrow> files w n
      | None \<Rightarrow> texts w (kotlin_out a))"

text \<open>
  \<^verbatim>\<open>main\<close>, after the parsing of the arguments. On success it returns, with the world,
  the text written to the bindings file, the list \<^verbatim>\<open>descriptors\<close> and the number that
  the first line of the summary prints, \<^verbatim>\<open>len(descriptors)\<close>.
\<close>

record run_output =
  bindings :: string
  descriptors :: "descriptor list"
  downloaded :: nat

definition main :: "env \<Rightarrow> args \<Rightarrow> world \<Rightarrow> error \<times> world + world \<times> run_output" where
  "main E a w0 =
     (let w1 = w0\<lparr> fetched := fetched w0 @ [css_url a] \<rparr>
      in case urlopen_read E (css_url a) of
           None \<Rightarrow> Inl (URLError (css_url a), w1)
         | Some raw \<Rightarrow>
             (let css_text = decode_utf8 E raw;
                  faces = parse_font_faces css_text
              in if \<not> mkdir_ok E (out_dir a) then Inl (OSError (out_dir a), w1)
                 else (case run_faces E (css_url a) faces (w1, []) of
                         Inl e \<Rightarrow> Inl e
                       | Inr (w2, ds) \<Rightarrow>
                           (let text = join_lines (kotlin_lines a ds)
                            in if \<not> write_text_ok E (kotlin_out a)
                               then Inl (OSError (kotlin_out a), w2)
                               else Inr (write_bindings E a text w2,
                                         \<lparr> bindings = text, descriptors = ds,
                                           downloaded = length ds \<rparr>)))))"

text \<open>The world a run ends in, whether it returns or raises.\<close>

definition final_world :: "error \<times> world + world \<times> 'a \<Rightarrow> world" where
  "final_world r = (case r of Inl (e, w) \<Rightarrow> w | Inr (w, x) \<Rightarrow> w)"

section \<open>Where the keyword of a block can start\<close>

text \<open>
  Not part of the script: the statement that the text \<^verbatim>\<open>@font-face\<close>, in any letter case,
  starts at some position of a text. The facts on the scan of \<^verbatim>\<open>parse_font_faces\<close> are
  stated with it.
\<close>

definition has_font_face_keyword :: "string \<Rightarrow> bool" where
  "has_font_face_keyword s =
     list_ex (\<lambda>i. match_literal_ci ''@font-face'' (drop i s) \<noteq> None) [0..<length s]"

text \<open>
  The equations of the four scanning functions rewrite a call into a call: they are
  applied by name where a proof needs them.
\<close>

declare FONT_FACE_RE_findall.simps [simp del]

declare PROP_RE_findall.simps [simp del]

declare URL_RE_findall.simps [simp del]

declare re_split_non_alnum.simps [simp del]

section \<open>A sample run\<close>

text \<open>
  A stylesheet at \<^verbatim>\<open>https://h/f.css\<close> with four faces: three name font files, the third
  has a \<^verbatim>\<open>src\<close> without \<^verbatim>\<open>url(...)\<close>. The three font URLs all deliver the empty file. The
  stylesheet and the bindings are ASCII, which UTF-8 decodes and encodes byte by byte.
  A path is a file of a directory when it is the directory, a slash and a name without
  slash. The library functions of the sample environment agree with the Python ones on
  the values that occur: \<^verbatim>\<open>urljoin("https://h/f.css", "b.ttf")\<close> is \<^verbatim>\<open>https://h/b.ttf\<close>, the path of
  \<^verbatim>\<open>https://h/a.woff?v=1\<close> is \<^verbatim>\<open>/a.woff\<close> with suffix \<^verbatim>\<open>.woff\<close>, and the SHA-1 of the empty
  file is \<^verbatim>\<open>da39a3ee5e6b4b0d3255bfef95601890afd80709\<close>.
\<close>

definition sample_css :: string where
  "sample_css =
     ''@font-face { font-family: '' @ [sq] @ ''Open Sans'' @ [sq] @ ''; src: url(a.woff?v=1); }''
     @ ''@font-face { font-family: Open Sans; font-weight: Bold; src: url(b.ttf); }''
     @ ''@font-face { font-family: Other; src: local(x); }''
     @ ''@font-face { font-family: Open Sans; font-style: Italic; src: url(c.woff); }''"

definition sample_env :: env where
  "sample_env =
     \<lparr> urlopen_read =
         (\<lambda>u. if u = ''https://h/f.css'' then Some sample_css
              else if u = ''https://h/a.woff?v=1'' \<or> u = ''https://h/b.ttf''
                      \<or> u = ''https://h/c.woff'' then Some []
              else None),
       decode_utf8 = (\<lambda>b. b),
       urljoin = (\<lambda>base rel. Some (''https://h/'' @ rel)),
       urlparse_path =
         (\<lambda>u. Some (takeWhile (\<lambda>c. c \<noteq> CHR ''?'' \<and> c \<noteq> CHR ''#'') (drop 9 u))),
       path_suffix =
         (\<lambda>p. if CHR ''.'' \<in> set p
              then CHR ''.'' # rev (takeWhile (\<lambda>c. c \<noteq> CHR ''.'') (rev p)) else []),
       sha1_hexdigest =
         (\<lambda>d. if d = [] then ''da39a3ee5e6b4b0d3255bfef95601890afd80709''
              else ''86f7e437faa5a7fce15d1ddcb9eaeaea377667b8''),
       mkdir_ok = (\<lambda>d. True),
       write_bytes_ok = (\<lambda>n. True),
       write_text_ok = (\<lambda>n. True),
       encode_utf8 = (\<lambda>t. t),
       in_out_dir =
         (\<lambda>d p. if take (length d + 1) p = d @ ''/'' \<and> drop (length d + 1) p \<noteq> []
                   \<and> CHR ''/'' \<notin> set (drop (length d + 1) p)
                then Some (drop (length d + 1) p) else None) \<rparr>"

definition sample_args :: args where
  "sample_args =
     \<lparr> css_url = ''https://h/f.css'', out_dir = ''composeResources/font'',
       kotlin_out = ''FontDescriptors.kt'', res_package = ''your.package.generated.resources'',
       kotlin_package = [] \<rparr>"

definition empty_world :: world where
  "empty_world = \<lparr> files = Map.empty, texts = Map.empty, fetched = [], written = [] \<rparr>"

text \<open>
  The same arguments with a bindings path that is a file of the output directory, under
  the name of the first font file of the sample.
\<close>

definition clash_args :: args where
  "clash_args =
     sample_args\<lparr> kotlin_out :=
       ''composeResources/font/_da39a3ee5e6b4b0d3255bfef95601890afd80709.woff'' \<rparr>"

text \<open>The same world with the first font file of the sample already in the directory.\<close>

definition stocked_world :: world where
  "stocked_world =
     \<lparr> files = [''_da39a3ee5e6b4b0d3255bfef95601890afd80709.woff'' \<mapsto> []],
       texts = Map.empty, fetched = [], written = [] \<rparr>"

section \<open>Facts about characters and stripping\<close>

lemma dq_not_space: "\<not> is_space dq"
  by (simp add: dq_def is_space_def)

lemma sq_not_space: "\<not> is_space sq"
  by (simp add: sq_def is_space_def)

lemma dq_neq_sq: "dq \<noteq> sq"
  by (simp add: dq_def sq_def)

lemma is_ident_char_underscore: "is_ident_char (CHR ''_'')"
  by (simp add: is_ident_char_def)

lemma lower_char_idem: "lower_char (lower_char c) = lower_char c"
  by (auto simp: lower_char_def Let_def)

lemma rstrip_append_spaces: "list_all is_space ws \<Longrightarrow> rstrip (s @ ws) = rstrip s"
proof (induction ws rule: rev_induct)
  case Nil
  then show ?case by simp
next
  case (snoc x xs)
  then have "rstrip (s @ xs @ [x]) = rstrip (s @ xs)"
    by (simp add: rstrip_def)
  with snoc show ?case by simp
qed

lemma rstrip_snoc_keep: "\<not> is_space c \<Longrightarrow> rstrip (s @ [c]) = s @ [c]"
  by (simp add: rstrip_def)

lemma lstrip_spaces_append: "list_all is_space ws \<Longrightarrow> lstrip (ws @ s) = lstrip s"
  by (simp add: lstrip_def dropWhile_append2 list_all_iff)

lemma lstrip_cons_keep: "\<not> is_space c \<Longrightarrow> lstrip (c # s) = c # s"
  by (simp add: lstrip_def)

lemma strip_framed:
  assumes "list_all is_space ws1" "list_all is_space ws2" "\<not> is_space a" "\<not> is_space b"
  shows "strip (ws1 @ a # mid @ [b] @ ws2) = a # mid @ [b]"
proof -
  have "lstrip (ws1 @ a # mid @ [b] @ ws2) = a # mid @ [b] @ ws2"
    using assms(1,3) by (simp add: lstrip_spaces_append lstrip_cons_keep)
  moreover have "rstrip ((a # mid @ [b]) @ ws2) = a # mid @ [b]"
    using assms(2,4) rstrip_snoc_keep [of b "a # mid"]
    by (simp only: rstrip_append_spaces) simp
  ultimately show ?thesis by (simp add: strip_def)
qed

lemma rstrip_idem: "rstrip (rstrip s) = rstrip s"
  by (simp add: rstrip_def)

lemma rstrip_hd: "rstrip s \<noteq> [] \<Longrightarrow> hd (rstrip s) = hd s"
proof (induction s rule: rev_induct)
  case Nil
  then show ?case by (simp add: rstrip_def)
next
  case (snoc x xs)
  then show ?case
    by (cases "is_space x"; cases xs) (auto simp: rstrip_def)
qed

lemma lstrip_rstrip_fix: "lstrip (rstrip (lstrip s)) = rstrip (lstrip s)"
proof (cases "rstrip (lstrip s) = []")
  case True
  then show ?thesis by (simp add: lstrip_def)
next
  case False
  then have h: "hd (rstrip (lstrip s)) = hd (lstrip s)" by (rule rstrip_hd)
  from False have "lstrip s \<noteq> []" by (auto simp: rstrip_def)
  then have "\<not> is_space (hd (lstrip s))"
    unfolding lstrip_def by (metis hd_dropWhile)
  with h False show ?thesis
    by (cases "rstrip (lstrip s)") (auto simp: lstrip_def)
qed

lemma strip_idem: "strip (strip s) = strip s"
  by (simp add: strip_def lstrip_rstrip_fix rstrip_idem)

section \<open>Quote stripping\<close>

lemma clean_value_pair:
  assumes "q = dq \<or> q = sq" "list_all is_space ws1" "list_all is_space ws2"
  shows "clean_value (ws1 @ q # mid @ [q] @ ws2) = mid"
proof -
  have nq: "\<not> is_space q" using assms(1) dq_not_space sq_not_space by auto
  have "strip (ws1 @ q # mid @ [q] @ ws2) = q # mid @ [q]"
    using strip_framed [OF assms(2,3) nq nq] .
  then show ?thesis
    using assms(1) by (auto simp: clean_value_def startswith_def endswith_def)
qed

lemma clean_value_unquoted:
  assumes "\<not> ((startswith (strip v) dq \<and> endswith (strip v) dq)
              \<or> (startswith (strip v) sq \<and> endswith (strip v) sq))"
  shows "clean_value v = strip v" and "clean_value (clean_value v) = clean_value v"
proof -
  show a: "clean_value v = strip v"
    using assms by (auto simp: clean_value_def Let_def)
  have "clean_value (strip v) = strip v"
    using assms by (auto simp: clean_value_def Let_def strip_idem)
  with a show "clean_value (clean_value v) = clean_value v" by simp
qed

lemma clean_value_mismatch:
  "clean_value (dq # mid @ [sq]) = dq # mid @ [sq]"
  "clean_value (sq # mid @ [dq]) = sq # mid @ [dq]"
  using strip_framed [of "[]" "[]" dq sq mid] strip_framed [of "[]" "[]" sq dq mid]
    dq_not_space sq_not_space dq_neq_sq
  by (auto simp: clean_value_def startswith_def endswith_def)

lemma clean_value_examples:
  "clean_value (dq # ''Arial'' @ [dq]) = ''Arial''"
  "clean_value (sq # ''Arial'' @ [sq]) = ''Arial''"
  "clean_value ''Arial'' = ''Arial''"
  "clean_value (dq # ''Ar'' @ [sq] @ ''ial'' @ [dq]) = ''Ar'' @ [sq] @ ''ial''"
  by code_simp+

text \<open>
  C4. The claim: for every input string, \<^verbatim>\<open>clean_value\<close> strips the surrounding white
  space and then removes exactly one matching pair of enclosing straight quotes when
  both ends are the same quote character. The lemmas above are the claim on the texts
  that have a pair (\<open>clean_value_pair\<close>), that are unquoted (\<open>clean_value_unquoted\<close>) or
  whose quotes are mismatched (\<open>clean_value_mismatch\<close>), with its four examples. A text
  that is one quote character alone holds no pair, and its one character is both its
  first and its last: the two tests of \<^verbatim>\<open>clean_value\<close> succeed on it and the slice
  \<^verbatim>\<open>value[1:-1]\<close> returns the empty text, where a function that removes pairs only keeps
  the character. The same happens with white space around the quote.
\<close>

theorem clean_value_lone_quote:
  "clean_value [dq] = [] \<and> clean_value [sq] = []
   \<and> clean_value ('' '' @ [dq] @ '' '') = [] \<and> [dq] \<noteq> []"
  by (simp add: clean_value_def strip_def lstrip_def rstrip_def dq_not_space sq_not_space
      startswith_def endswith_def is_space_def)

section \<open>Resource names\<close>

lemma sanitize_all_ident:
  "list_all is_ident_char (map (\<lambda>c. if is_ident_char c then c else CHR ''_'') s)"
  by (induction s) (simp_all add: is_ident_char_underscore)

lemma sanitize_id:
  "list_all is_ident_char s \<Longrightarrow> map (\<lambda>c. if is_ident_char c then c else CHR ''_'') s = s"
  by (induction s) simp_all

lemma to_valid_identifier_all_ident: "list_all is_ident_char (to_valid_identifier s)"
  by (simp add: to_valid_identifier_def Let_def sanitize_all_ident is_ident_char_underscore)

lemma to_valid_identifier_start:
  "to_valid_identifier s \<noteq> []
   \<and> (is_alpha_az (hd (to_valid_identifier s)) \<or> hd (to_valid_identifier s) = CHR ''_'')"
  by (auto simp: to_valid_identifier_def Let_def)

lemma resource_name_of_all_ident: "list_all is_ident_char (resource_name_of h)"
  by (simp add: resource_name_of_def Let_def to_valid_identifier_all_ident
      is_ident_char_underscore)

lemma resource_name_of_starts: "startswith (resource_name_of h) (CHR ''_'')"
  by (simp add: resource_name_of_def Let_def startswith_def split: list.splits)

lemma to_valid_identifier_fix:
  "list_all is_ident_char s \<Longrightarrow> startswith s (CHR ''_'') \<Longrightarrow> to_valid_identifier s = s"
  by (cases s) (simp_all add: to_valid_identifier_def Let_def sanitize_id startswith_def)

lemma resource_name_of_fix:
  "list_all is_ident_char s \<Longrightarrow> startswith s (CHR ''_'') \<Longrightarrow> resource_name_of s = s"
  by (simp add: resource_name_of_def Let_def to_valid_identifier_fix)

lemma resource_name_of_net:
  "resource_name_of h =
     (let safe = map (\<lambda>c. if is_ident_char c then c else CHR ''_'') h
      in if startswith safe (CHR ''_'') then safe else CHR ''_'' # safe)"
  by (cases h) (auto simp add: resource_name_of_def to_valid_identifier_def Let_def
      startswith_def)

text \<open>
  C5. For every text \<open>h\<close>, a hash or not, the resource name derived from it starts with
  an underscore and holds characters of \<^verbatim>\<open>[0-9A-Za-z_]\<close> only. It is the text with every
  other character replaced by an underscore, and one underscore in front unless that
  text starts with one already: the two prefixing steps never add two. A resource name
  is a fixed point of both steps, so the transform is safe on its own output.
\<close>

theorem resource_name_safe:
  "startswith (resource_name_of h) (CHR ''_'')
   \<and> list_all is_ident_char (resource_name_of h)
   \<and> resource_name_of h =
       (let safe = map (\<lambda>c. if is_ident_char c then c else CHR ''_'') h
        in if startswith safe (CHR ''_'') then safe else CHR ''_'' # safe)
   \<and> to_valid_identifier (resource_name_of h) = resource_name_of h
   \<and> resource_name_of (resource_name_of h) = resource_name_of h"
  using resource_name_of_starts [of h] resource_name_of_all_ident [of h]
    resource_name_of_net [of h]
    to_valid_identifier_fix [of "resource_name_of h"]
    resource_name_of_fix [of "resource_name_of h"]
  by simp

section \<open>The loop over the faces\<close>

lemma write_font_exists: "files w n = Some b \<Longrightarrow> write_font E n d w = Inr w"
  by (simp add: write_font_def)

lemma write_font_Inr:
  assumes "write_font E n d w = Inr w'"
  shows "files w' n \<noteq> None" "files w \<subseteq>\<^sub>m files w'" "texts w' = texts w" "fetched w' = fetched w"
    "\<exists>new. written w' = written w @ new \<and> distinct new \<and> set new \<inter> dom (files w) = {}
       \<and> dom (files w') = dom (files w) \<union> set new"
  using assms by (auto simp: write_font_def map_le_def split: if_splits)

lemma process_face_frame:
  "files w \<subseteq>\<^sub>m files (final_world (process_face E base f (w, ds)))"
  by (auto simp: process_face_def final_world_def Let_def write_font_def map_le_def
      split: option.splits if_splits sum.splits)

lemma run_faces_frame:
  "files (fst st) \<subseteq>\<^sub>m files (final_world (run_faces E base fs st))"
proof (induction fs arbitrary: st)
  case Nil
  then show ?case by (cases st) (simp add: final_world_def)
next
  case (Cons f fs)
  obtain w ds where st: "st = (w, ds)" by (cases st)
  show ?case
  proof (cases "process_face E base f (w, ds)")
    case (Inl e)
    with process_face_frame [of w E base f ds] st show ?thesis by simp
  next
    case (Inr st')
    with process_face_frame [of w E base f ds] have "files w \<subseteq>\<^sub>m files (fst st')"
      by (cases st') (simp add: final_world_def)
    with Cons.IH [of st'] Inr st show ?thesis
      by (auto intro: map_le_trans)
  qed
qed

lemma run_faces_frame_Inr:
  "run_faces E base fs (w, ds) = Inr (w', ds') \<Longrightarrow> files w \<subseteq>\<^sub>m files w'"
  using run_faces_frame [of "(w, ds)" E base fs] by (simp add: final_world_def)

lemma run_faces_append:
  "run_faces E base (xs @ ys) st =
     (case run_faces E base xs st of Inl e \<Rightarrow> Inl e | Inr st' \<Rightarrow> run_faces E base ys st')"
  by (induction xs arbitrary: st) (auto split: sum.splits)

lemma process_face_skip:
  assumes "face ''src'' = None \<or> face ''src'' = Some []
           \<or> (\<exists>v. face ''src'' = Some v \<and> URL_RE_findall v = [])"
  shows "process_face E base face (w, ds) = Inr (w, ds)"
  using assms by (auto simp: process_face_def pick_url_def)

lemma process_face_fetch:
  assumes "pick_url (face ''src'') = Some rel" "rel \<noteq> []" "urljoin E base rel = Some u"
    "urlopen_read E u = Some data" "urlparse_path E u = Some p"
  shows "process_face E base face (w, ds) =
           (case write_font E (resource_name_of (sha1_hex E data) @ ext_of_path E p) data
                   (w\<lparr> fetched := fetched w @ [u] \<rparr>) of
              Inl e \<Rightarrow> Inl e
            | Inr w2 \<Rightarrow> Inr (w2, ds @ [make_descriptor face (resource_name_of (sha1_hex E data))]))"
  using assms by (simp add: process_face_def Let_def)

lemma process_face_Inr_cases:
  assumes "process_face E base face (w, ds) = Inr (w', ds')"
  shows "(w' = w \<and> ds' = ds \<and> (pick_url (face ''src'') = None \<or> pick_url (face ''src'') = Some []))
       \<or> (\<exists>rel u data p. pick_url (face ''src'') = Some rel \<and> rel \<noteq> [] \<and> urljoin E base rel = Some u
             \<and> urlopen_read E u = Some data \<and> urlparse_path E u = Some p
             \<and> write_font E (resource_name_of (sha1_hex E data) @ ext_of_path E p) data
                   (w\<lparr> fetched := fetched w @ [u] \<rparr>) = Inr w'
             \<and> ds' = ds @ [make_descriptor face (resource_name_of (sha1_hex E data))])"
  using assms
  by (auto simp: process_face_def Let_def split: option.splits if_splits sum.splits)

lemma process_face_writes:
  assumes "process_face E base face (w, ds) = Inr (w', ds')"
  shows "(\<exists>new. written w' = written w @ new \<and> distinct new \<and> set new \<inter> dom (files w) = {}
       \<and> dom (files w') = dom (files w) \<union> set new)
    \<and> texts w' = texts w \<and> (\<exists>nd. ds' = ds @ nd)"
proof -
  from process_face_Inr_cases [OF assms] consider
    (skip) "w' = w" "ds' = ds"
  | (fetch) fn data u nd where
      "write_font E fn data (w\<lparr> fetched := fetched w @ [u] \<rparr>) = Inr w'" "ds' = ds @ nd"
    by blast
  then show ?thesis
  proof cases
    case skip
    then show ?thesis by simp
  next
    case fetch
    from write_font_Inr(3,5) [OF fetch(1)] fetch(2) show ?thesis by simp
  qed
qed

lemma run_faces_writes:
  assumes "run_faces E base fs (w, ds) = Inr (w', ds')"
  shows "(\<exists>new. written w' = written w @ new \<and> distinct new \<and> set new \<inter> dom (files w) = {}
       \<and> dom (files w') = dom (files w) \<union> set new)
    \<and> texts w' = texts w \<and> (\<exists>nd. ds' = ds @ nd)"
  using assms
proof (induction fs arbitrary: w ds)
  case Nil
  then show ?case by simp
next
  case (Cons f fs)
  from Cons.prems obtain w1 ds1 where p: "process_face E base f (w, ds) = Inr (w1, ds1)"
    and r: "run_faces E base fs (w1, ds1) = Inr (w', ds')"
    by (auto split: sum.splits)
  from process_face_writes [OF p] obtain new1 nd1 where
    a: "written w1 = written w @ new1" "distinct new1" "set new1 \<inter> dom (files w) = {}"
       "dom (files w1) = dom (files w) \<union> set new1" "texts w1 = texts w" "ds1 = ds @ nd1"
    by auto
  from Cons.IH [OF r] obtain new2 nd2 where
    b: "written w' = written w1 @ new2" "distinct new2" "set new2 \<inter> dom (files w1) = {}"
       "dom (files w') = dom (files w1) \<union> set new2" "texts w' = texts w1" "ds' = ds1 @ nd2"
    by auto
  have "written w' = written w @ (new1 @ new2)" using a b by simp
  moreover have "distinct (new1 @ new2)" using a b by auto
  moreover have "set (new1 @ new2) \<inter> dom (files w) = {}" using a b by auto
  moreover have "dom (files w') = dom (files w) \<union> set (new1 @ new2)" using a b by auto
  moreover have "ds' = ds @ (nd1 @ nd2)" using a b by simp
  ultimately show ?case using a b by metis
qed

lemma process_face_rerun:
  assumes "process_face E base f (w, ds) = Inr (w', ds')" "dom (files w') \<subseteq> dom (files v)"
  shows "\<exists>nd. ds' = ds @ nd \<and> (\<forall>es. \<exists>v'. process_face E base f (v, es) = Inr (v', es @ nd)
           \<and> files v' = files v \<and> written v' = written v \<and> texts v' = texts v)"
proof -
  from process_face_Inr_cases [OF assms(1)] consider
    (skip) "w' = w" "ds' = ds" "pick_url (f ''src'') = None \<or> pick_url (f ''src'') = Some []"
  | (fetch) rel u data p where
      "pick_url (f ''src'') = Some rel" "rel \<noteq> []" "urljoin E base rel = Some u"
      "urlopen_read E u = Some data" "urlparse_path E u = Some p"
      "write_font E (resource_name_of (sha1_hex E data) @ ext_of_path E p) data
                   (w\<lparr> fetched := fetched w @ [u] \<rparr>) = Inr w'"
      "ds' = ds @ [make_descriptor f (resource_name_of (sha1_hex E data))]"
    by blast
  then show ?thesis
  proof cases
    case skip
    then show ?thesis by (auto simp: process_face_def)
  next
    case fetch
    let ?fn = "resource_name_of (sha1_hex E data) @ ext_of_path E p"
    from write_font_Inr(1) [OF fetch(6)] have "?fn \<in> dom (files w')" by (simp add: dom_def)
    with assms(2) have "?fn \<in> dom (files v)" by blast
    then have ex: "files v ?fn \<noteq> None" by (simp add: dom_def)
    have "\<And>es. process_face E base f (v, es)
          = Inr (v\<lparr> fetched := fetched v @ [u] \<rparr>,
                 es @ [make_descriptor f (resource_name_of (sha1_hex E data))])"
      using ex fetch(1-5) by (simp add: process_face_fetch write_font_def)
    with fetch(7) show ?thesis by auto
  qed
qed

lemma run_faces_rerun:
  assumes "run_faces E base fs (w, ds) = Inr (w', ds')" "dom (files w') \<subseteq> dom (files v)"
  shows "\<exists>nd. ds' = ds @ nd \<and> (\<forall>es. \<exists>v'. run_faces E base fs (v, es) = Inr (v', es @ nd)
           \<and> files v' = files v \<and> written v' = written v \<and> texts v' = texts v)"
  using assms
proof (induction fs arbitrary: w ds v)
  case Nil
  then show ?case by simp
next
  case (Cons f fs)
  from Cons.prems(1) obtain w1 ds1 where p: "process_face E base f (w, ds) = Inr (w1, ds1)"
    and r: "run_faces E base fs (w1, ds1) = Inr (w', ds')"
    by (auto split: sum.splits)
  have "dom (files w1) \<subseteq> dom (files w')"
    using run_faces_frame_Inr [OF r] by (rule map_le_implies_dom_le)
  with Cons.prems(2) have le: "dom (files w1) \<subseteq> dom (files v)" by blast
  from process_face_rerun [OF p le] obtain nd1 where
    n1: "ds1 = ds @ nd1"
    and s1: "\<And>es. \<exists>v'. process_face E base f (v, es) = Inr (v', es @ nd1)
           \<and> files v' = files v \<and> written v' = written v \<and> texts v' = texts v"
    by blast
  from run_faces_writes [OF r] obtain nd2 where n2: "ds' = ds1 @ nd2" by auto
  have "\<exists>v'. run_faces E base (f # fs) (v, es) = Inr (v', es @ (nd1 @ nd2))
           \<and> files v' = files v \<and> written v' = written v \<and> texts v' = texts v" for es
  proof -
    from s1 [of es] obtain v1 where
      q: "process_face E base f (v, es) = Inr (v1, es @ nd1)"
      and e: "files v1 = files v" "written v1 = written v" "texts v1 = texts v"
      by blast
    have "dom (files w') \<subseteq> dom (files v1)" using Cons.prems(2) e by simp
    from Cons.IH [OF r this] n2 obtain v' where
      "run_faces E base fs (v1, es @ nd1) = Inr (v', (es @ nd1) @ nd2)"
      "files v' = files v1" "written v' = written v1" "texts v' = texts v1"
      by (metis same_append_eq)
    with q e show ?thesis by auto
  qed
  with n1 n2 show ?case by (metis append.assoc)
qed

lemma write_bindings_fields:
  "written (write_bindings E a text w) = written w"
  "fetched (write_bindings E a text w) = fetched w"
  "read_bindings E a (write_bindings E a text w) = Some (encode_utf8 E text)"
  "in_out_dir E (out_dir a) (kotlin_out a) \<noteq> Some n \<Longrightarrow>
     files (write_bindings E a text w) n = files w n"
  "dom (files w) \<subseteq> dom (files (write_bindings E a text w))"
  by (auto simp: write_bindings_def read_bindings_def split: option.splits)

lemma write_bindings_again:
  assumes "files v = files (write_bindings E a text w)"
    and "texts v = texts (write_bindings E a text w)"
    and "written v = written (write_bindings E a text w)"
  shows "files (write_bindings E a text v) = files (write_bindings E a text w)"
    and "texts (write_bindings E a text v) = texts (write_bindings E a text w)"
    and "written (write_bindings E a text v) = written (write_bindings E a text w)"
  using assms by (auto simp: write_bindings_def split: option.splits)

lemma main_loop_frame:
  "files w0 \<subseteq>\<^sub>m files (final_world (run_faces E base fs (w0, ds)))"
  using run_faces_frame [of "(w0, ds)" E base fs] by simp

lemma main_frame:
  assumes "files w0 n = Some b" "in_out_dir E (out_dir a) (kotlin_out a) \<noteq> Some n"
  shows "files (final_world (main E a w0)) n = Some b"
proof (cases "urlopen_read E (css_url a)")
  case None
  with assms(1) show ?thesis by (simp add: main_def final_world_def)
next
  case (Some raw)
  let ?w1 = "w0\<lparr> fetched := fetched w0 @ [css_url a] \<rparr>"
  let ?r = "run_faces E (css_url a) (parse_font_faces (decode_utf8 E raw)) (?w1, [])"
  have "files ?w1 \<subseteq>\<^sub>m files (final_world ?r)" by (rule main_loop_frame)
  with assms(1) have fr: "files (final_world ?r) n = Some b"
    by (auto simp: map_le_def dom_def)
  show ?thesis
  proof (cases ?r)
    case (Inl e)
    with Some fr assms(1) show ?thesis
      by (cases e) (auto simp: main_def final_world_def Let_def)
  next
    case (Inr st)
    obtain w2 ds where st: "st = (w2, ds)" by (cases st)
    with Inr fr have "files w2 n = Some b" by (simp add: final_world_def)
    with write_bindings_fields(4) [OF assms(2)] have
      "files (write_bindings E a (join_lines (kotlin_lines a ds)) w2) n = Some b" by simp
    with Some Inr st fr assms(1) show ?thesis
      by (auto simp: main_def final_world_def Let_def)
  qed
qed

lemma main_Inr_cases:
  assumes "main E a w0 = Inr (w1, out)"
  shows "\<exists>raw wl. urlopen_read E (css_url a) = Some raw \<and> mkdir_ok E (out_dir a)
           \<and> run_faces E (css_url a) (parse_font_faces (decode_utf8 E raw))
                (w0\<lparr> fetched := fetched w0 @ [css_url a] \<rparr>, []) = Inr (wl, descriptors out)
           \<and> write_text_ok E (kotlin_out a)
           \<and> w1 = write_bindings E a (bindings out) wl
           \<and> bindings out = join_lines (kotlin_lines a (descriptors out))
           \<and> downloaded out = length (descriptors out)"
  using assms
  by (auto simp: main_def Let_def split: option.splits if_splits sum.splits)

lemma main_writes:
  assumes "main E a w0 = Inr (w1, out)"
  shows "\<exists>new. written w1 = written w0 @ new \<and> distinct new
           \<and> set new \<inter> dom (files w0) = {}"
proof -
  from main_Inr_cases [OF assms] obtain raw wl where
    r: "run_faces E (css_url a) (parse_font_faces (decode_utf8 E raw))
                (w0\<lparr> fetched := fetched w0 @ [css_url a] \<rparr>, []) = Inr (wl, descriptors out)"
    and w1: "w1 = write_bindings E a (bindings out) wl"
    by blast
  from run_faces_writes [OF r] obtain new where
    "written wl = written w0 @ new" "distinct new" "set new \<inter> dom (files w0) = {}"
    by auto
  with w1 show ?thesis by (auto simp: write_bindings_fields)
qed

lemma main_rerun:
  assumes "main E a w0 = Inr (w1, out)"
  shows "\<exists>w2. main E a w1 = Inr (w2, out) \<and> files w2 = files w1 \<and> written w2 = written w1
              \<and> texts w2 = texts w1"
proof -
  from main_Inr_cases [OF assms] obtain raw wl where
    u: "urlopen_read E (css_url a) = Some raw" and m: "mkdir_ok E (out_dir a)"
    and r: "run_faces E (css_url a) (parse_font_faces (decode_utf8 E raw))
                (w0\<lparr> fetched := fetched w0 @ [css_url a] \<rparr>, []) = Inr (wl, descriptors out)"
    and t: "write_text_ok E (kotlin_out a)"
    and w1: "w1 = write_bindings E a (bindings out) wl"
    and b: "bindings out = join_lines (kotlin_lines a (descriptors out))"
    and n: "downloaded out = length (descriptors out)"
    by blast
  let ?v = "w1\<lparr> fetched := fetched w1 @ [css_url a] \<rparr>"
  have "dom (files wl) \<subseteq> dom (files ?v)"
    using w1 write_bindings_fields(5) [of wl E a "bindings out"] by simp
  from run_faces_rerun [OF r this] obtain nd where
    nd: "descriptors out = [] @ nd"
    and every: "\<And>es. \<exists>v'. run_faces E (css_url a) (parse_font_faces (decode_utf8 E raw))
                  (?v, es) = Inr (v', es @ nd)
           \<and> files v' = files ?v \<and> written v' = written ?v \<and> texts v' = texts ?v"
    by blast
  from every [of "[]"] obtain v' where
    "run_faces E (css_url a) (parse_font_faces (decode_utf8 E raw)) (?v, []) = Inr (v', [] @ nd)"
    and e: "files v' = files ?v" "written v' = written ?v" "texts v' = texts ?v"
    by blast
  with nd have
    r2: "run_faces E (css_url a) (parse_font_faces (decode_utf8 E raw)) (?v, [])
           = Inr (v', descriptors out)"
    by simp
  let ?w2 = "write_bindings E a (bindings out) v'"
  have o: "out = \<lparr> bindings = join_lines (kotlin_lines a (descriptors out)),
                   descriptors = descriptors out, downloaded = length (descriptors out) \<rparr>"
    using b n by simp
  have "main E a w1 = Inr (write_bindings E a (join_lines (kotlin_lines a (descriptors out))) v',
          \<lparr> bindings = join_lines (kotlin_lines a (descriptors out)),
            descriptors = descriptors out, downloaded = length (descriptors out) \<rparr>)"
    using u m t r2 by (simp add: main_def Let_def)
  with o b have run2: "main E a w1 = Inr (?w2, out)" by simp
  have "files v' = files (write_bindings E a (bindings out) wl)"
    "texts v' = texts (write_bindings E a (bindings out) wl)"
    "written v' = written (write_bindings E a (bindings out) wl)"
    using e w1 by simp_all
  from write_bindings_again [OF this] w1 have
    "files ?w2 = files w1" "texts ?w2 = texts w1" "written ?w2 = written w1"
    by simp_all
  with run2 show ?thesis by blast
qed

lemma main_bindings_written:
  assumes "main E a w0 = Inr (w1, out)"
  shows "read_bindings E a w1 = Some (encode_utf8 E (bindings out))"
    and "bindings out = join_lines (kotlin_lines a (descriptors out))"
    and "downloaded out = length (descriptors out)"
  using main_Inr_cases [OF assms] by (auto simp: write_bindings_fields)

section \<open>Facts of the sample run\<close>


lemma sample_face1_src:
  "pick_url (parse_props ('' font-family: '' @ [sq] @ ''Open Sans'' @ [sq]
                 @ ''; src: url(a.woff?v=1); '') ''src'') = Some ''a.woff?v=1''"
  by code_simp

lemma sample_face3_src:
  "parse_props '' font-family: Other; src: local(x); '' ''src'' = Some ''local(x)''"
  "URL_RE_findall ''local(x)'' = []"
  by code_simp+

lemma sample_face4_src:
  "pick_url (parse_props '' font-family: Open Sans; font-style: Italic; src: url(c.woff); ''
       ''src'') = Some ''c.woff''"
  by code_simp

lemma sample_env_values:
  "urljoin sample_env ''https://h/f.css'' ''a.woff?v=1'' = Some ''https://h/a.woff?v=1''"
  "urljoin sample_env ''https://h/f.css'' ''c.woff'' = Some ''https://h/c.woff''"
  "urlopen_read sample_env ''https://h/a.woff?v=1'' = Some []"
  "urlopen_read sample_env ''https://h/c.woff'' = Some []"
  "urlparse_path sample_env ''https://h/a.woff?v=1'' = Some ''/a.woff''"
  "urlparse_path sample_env ''https://h/c.woff'' = Some ''/c.woff''"
  "resource_name_of (sha1_hex sample_env []) = ''_da39a3ee5e6b4b0d3255bfef95601890afd80709''"
  "path_suffix sample_env ''/a.woff'' = ''.woff''"
  "path_suffix sample_env ''/c.woff'' = ''.woff''"
  by code_simp+

lemma sample_main_returns:
  "case main sample_env sample_args empty_world of Inl e \<Rightarrow> False | Inr r \<Rightarrow> True"
  by code_simp

section \<open>Faces without a usable source\<close>

text \<open>
  C7. A face whose \<^verbatim>\<open>src\<close> is absent, empty or without any \<^verbatim>\<open>url(...)\<close> leaves the loop
  body with the world and the descriptor list it found: nothing is requested, nothing
  is written, no descriptor is added and no error is raised. A run over a list of faces
  that holds such a face is the run over the list without it, so the face is in no
  binding and in no count.
\<close>

theorem skipped_face_no_effect:
  assumes "face ''src'' = None \<or> face ''src'' = Some []
           \<or> (\<exists>v. face ''src'' = Some v \<and> URL_RE_findall v = [])"
  shows "process_face E base face (w, ds) = Inr (w, ds)
       \<and> run_faces E base (before @ face # after) st = run_faces E base (before @ after) st"
proof -
  have skip: "process_face E base face st' = Inr st'" for st'
    using assms process_face_skip [where face = face] by (cases st') simp
  have "run_faces E base (face # after) st' = run_faces E base after st'" for st'
    using skip [of st'] by simp
  then have "run_faces E base (before @ face # after) st = run_faces E base (before @ after) st"
    by (simp add: run_faces_append split: sum.splits)
  with skip [of "(w, ds)"] show ?thesis by simp
qed

theorem skipped_face_no_effect_witness:
  "(parse_props '' font-family: Other; src: local(x); '' ''src'' = Some ''local(x)''
      \<and> URL_RE_findall ''local(x)'' = [])
   \<and> process_face sample_env ''https://h/f.css''
        (parse_props '' font-family: Other; src: local(x); '') (empty_world, [])
      = Inr (empty_world, [])
   \<and> run_faces sample_env ''https://h/f.css''
        ([] @ parse_props '' font-family: Other; src: local(x); '' # []) (empty_world, [])
      = run_faces sample_env ''https://h/f.css'' ([] @ []) (empty_world, [])"
proof -
  have h: "parse_props '' font-family: Other; src: local(x); '' ''src'' = None
        \<or> parse_props '' font-family: Other; src: local(x); '' ''src'' = Some []
        \<or> (\<exists>v. parse_props '' font-family: Other; src: local(x); '' ''src'' = Some v
               \<and> URL_RE_findall v = [])"
    using sample_face3_src by blast
  from h skipped_face_no_effect
    [where face = "parse_props '' font-family: Other; src: local(x); ''" and E = sample_env
       and base = "''https://h/f.css''" and w = empty_world and ds = "[]"
       and before = "[]" and after = "[]" and st = "(empty_world, [])"]
    sample_face3_src
  show ?thesis by blast
qed

section \<open>Files that are already there\<close>

lemma sample_paths:
  "in_out_dir sample_env (out_dir sample_args) (kotlin_out sample_args)
     \<noteq> Some ''_da39a3ee5e6b4b0d3255bfef95601890afd80709.woff''"
  "in_out_dir sample_env (out_dir clash_args) (kotlin_out clash_args)
     = Some ''_da39a3ee5e6b4b0d3255bfef95601890afd80709.woff''"
  by code_simp+

lemma sample_stocked_name:
  "files stocked_world (resource_name_of (sha1_hex sample_env []) @ ext_of_path sample_env ''/a.woff'')
     = Some []"
  by (simp add: ext_of_path_def sample_env_values stocked_world_def)

text \<open>
  The loop over the faces never writes over a file, and the bindings file is written
  whatever is at its path. With a bindings path that is a file of the output directory
  under the name of a font file that is there, the run leaves the bindings in that
  file: its bytes are not the font any more.
\<close>

lemma sample_clash_overwrites:
  "files stocked_world ''_da39a3ee5e6b4b0d3255bfef95601890afd80709.woff'' = Some []"
  "files (final_world (main sample_env clash_args stocked_world))
     ''_da39a3ee5e6b4b0d3255bfef95601890afd80709.woff''
   = read_bindings sample_env clash_args (final_world (main sample_env clash_args stocked_world))"
  "files (final_world (main sample_env clash_args stocked_world))
     ''_da39a3ee5e6b4b0d3255bfef95601890afd80709.woff'' \<noteq> Some []"
  by code_simp+

text \<open>
  C8. When a file of the name is in the output directory the writer returns the world
  as it is, and the loop body for a face whose file is there only requests the font and
  adds the descriptor. The loop over the faces leaves every file that is in the
  directory with its bytes, whether it returns or raises, and so does the whole run for
  every file but the one at the path of the bindings. A run that returns has requested
  the stylesheet, run the loop and written to the bindings file the text generated
  from the descriptors of the loop; the font files it has written are new names, none
  of which was in the directory before. A second run in the world that such a run has
  left, with the same arguments and the same environment, returns the same output: it
  writes no font file, leaves every file as it is, and the bindings file, written again,
  holds the same text.
\<close>

theorem existing_files_untouched:
  "(files w n = Some b \<longrightarrow> write_font E n d w = Inr w)
   \<and> (pick_url (face ''src'') = Some rel \<and> rel \<noteq> [] \<and> urljoin E base rel = Some u
        \<and> urlopen_read E u = Some data \<and> urlparse_path E u = Some p
        \<and> files w (resource_name_of (sha1_hex E data) @ ext_of_path E p) = Some b \<longrightarrow>
        process_face E base face (w, ds)
          = Inr (w\<lparr> fetched := fetched w @ [u] \<rparr>,
                 ds @ [make_descriptor face (resource_name_of (sha1_hex E data))]))
   \<and> (files w n = Some b \<longrightarrow>
        files (final_world (run_faces E base faces (w, ds))) n = Some b)
   \<and> (files w0 n = Some b \<and> in_out_dir E (out_dir a) (kotlin_out a) \<noteq> Some n \<longrightarrow>
        files (final_world (main E a w0)) n = Some b)
   \<and> (main E a w0 = Inr (w1, out) \<longrightarrow>
        (\<exists>raw wl. urlopen_read E (css_url a) = Some raw
           \<and> run_faces E (css_url a) (parse_font_faces (decode_utf8 E raw))
                (w0\<lparr> fetched := fetched w0 @ [css_url a] \<rparr>, []) = Inr (wl, descriptors out)
           \<and> w1 = write_bindings E a (bindings out) wl)
        \<and> bindings out = join_lines (kotlin_lines a (descriptors out))
        \<and> downloaded out = length (descriptors out)
        \<and> read_bindings E a w1 = Some (encode_utf8 E (bindings out))
        \<and> (\<exists>new. written w1 = written w0 @ new \<and> distinct new
               \<and> set new \<inter> dom (files w0) = {})
        \<and> (\<exists>w2. main E a w1 = Inr (w2, out) \<and> files w2 = files w1
               \<and> written w2 = written w1 \<and> texts w2 = texts w1
               \<and> read_bindings E a w2 = Some (encode_utf8 E (bindings out))))"
proof (intro conjI impI)
  assume "files w n = Some b"
  then show "write_font E n d w = Inr w" by (rule write_font_exists)
next
  assume h: "pick_url (face ''src'') = Some rel \<and> rel \<noteq> [] \<and> urljoin E base rel = Some u
        \<and> urlopen_read E u = Some data \<and> urlparse_path E u = Some p
        \<and> files w (resource_name_of (sha1_hex E data) @ ext_of_path E p) = Some b"
  then have "process_face E base face (w, ds) =
           (case write_font E (resource_name_of (sha1_hex E data) @ ext_of_path E p) data
                   (w\<lparr> fetched := fetched w @ [u] \<rparr>) of
              Inl e \<Rightarrow> Inl e
            | Inr w2 \<Rightarrow> Inr (w2, ds @ [make_descriptor face (resource_name_of (sha1_hex E data))]))"
    by (simp add: process_face_fetch)
  with h show "process_face E base face (w, ds)
          = Inr (w\<lparr> fetched := fetched w @ [u] \<rparr>,
                 ds @ [make_descriptor face (resource_name_of (sha1_hex E data))])"
    by (simp add: write_font_def)
next
  assume "files w n = Some b"
  with main_loop_frame [of w E base faces ds]
  show "files (final_world (run_faces E base faces (w, ds))) n = Some b"
    by (auto simp: map_le_def dom_def)
next
  assume "files w0 n = Some b \<and> in_out_dir E (out_dir a) (kotlin_out a) \<noteq> Some n"
  then show "files (final_world (main E a w0)) n = Some b"
    using main_frame by blast
next
  assume m: "main E a w0 = Inr (w1, out)"
  from main_Inr_cases [OF m]
  show "\<exists>raw wl. urlopen_read E (css_url a) = Some raw
           \<and> run_faces E (css_url a) (parse_font_faces (decode_utf8 E raw))
                (w0\<lparr> fetched := fetched w0 @ [css_url a] \<rparr>, []) = Inr (wl, descriptors out)
           \<and> w1 = write_bindings E a (bindings out) wl"
    by blast
  show "bindings out = join_lines (kotlin_lines a (descriptors out))"
    using m by (rule main_bindings_written(2))
  show "downloaded out = length (descriptors out)"
    using m by (rule main_bindings_written(3))
  show r1: "read_bindings E a w1 = Some (encode_utf8 E (bindings out))"
    using m by (rule main_bindings_written(1))
  show "\<exists>new. written w1 = written w0 @ new \<and> distinct new \<and> set new \<inter> dom (files w0) = {}"
    using m by (rule main_writes)
  from main_rerun [OF m] obtain w2 where
    m2: "main E a w1 = Inr (w2, out)"
    and e: "files w2 = files w1" "written w2 = written w1" "texts w2 = texts w1"
    by blast
  from m2 have "read_bindings E a w2 = Some (encode_utf8 E (bindings out))"
    by (rule main_bindings_written(1))
  with m2 e show "\<exists>w2. main E a w1 = Inr (w2, out) \<and> files w2 = files w1
               \<and> written w2 = written w1 \<and> texts w2 = texts w1
               \<and> read_bindings E a w2 = Some (encode_utf8 E (bindings out))"
    by blast
qed

theorem existing_files_untouched_witness:
  "files stocked_world ''_da39a3ee5e6b4b0d3255bfef95601890afd80709.woff'' = Some []
   \<and> write_font sample_env ''_da39a3ee5e6b4b0d3255bfef95601890afd80709.woff'' ''x'' stocked_world
       = Inr stocked_world
   \<and> process_face sample_env ''https://h/f.css''
        (parse_props ('' font-family: '' @ [sq] @ ''Open Sans'' @ [sq]
                 @ ''; src: url(a.woff?v=1); '')) (stocked_world, [])
       = Inr (stocked_world\<lparr> fetched := fetched stocked_world @ [''https://h/a.woff?v=1''] \<rparr>,
              [] @ [make_descriptor
                     (parse_props ('' font-family: '' @ [sq] @ ''Open Sans'' @ [sq]
                         @ ''; src: url(a.woff?v=1); ''))
                     (resource_name_of (sha1_hex sample_env []))])
   \<and> files (final_world (run_faces sample_env ''https://h/f.css''
                (parse_font_faces sample_css) (stocked_world, [])))
       ''_da39a3ee5e6b4b0d3255bfef95601890afd80709.woff'' = Some []
   \<and> in_out_dir sample_env (out_dir sample_args) (kotlin_out sample_args)
       \<noteq> Some ''_da39a3ee5e6b4b0d3255bfef95601890afd80709.woff''
   \<and> files (final_world (main sample_env sample_args stocked_world))
       ''_da39a3ee5e6b4b0d3255bfef95601890afd80709.woff'' = Some []
   \<and> (\<exists>w1 out. main sample_env sample_args empty_world = Inr (w1, out)
        \<and> bindings out = join_lines (kotlin_lines sample_args (descriptors out))
        \<and> downloaded out = length (descriptors out)
        \<and> read_bindings sample_env sample_args w1 = Some (encode_utf8 sample_env (bindings out))
        \<and> (\<exists>new. written w1 = written empty_world @ new \<and> distinct new
               \<and> set new \<inter> dom (files empty_world) = {})
        \<and> (\<exists>w2. main sample_env sample_args w1 = Inr (w2, out) \<and> files w2 = files w1
               \<and> written w2 = written w1 \<and> texts w2 = texts w1
               \<and> read_bindings sample_env sample_args w2
                   = Some (encode_utf8 sample_env (bindings out))))"
proof -
  have f: "files stocked_world ''_da39a3ee5e6b4b0d3255bfef95601890afd80709.woff'' = Some []"
    by (simp add: stocked_world_def)
  have r: "''a.woff?v=1'' \<noteq> []" by simp
  from sample_main_returns obtain w1 out where
    m: "main sample_env sample_args empty_world = Inr (w1, out)"
    by (cases "main sample_env sample_args empty_world") auto
  note t1 = existing_files_untouched
    [where w = stocked_world and n = "''_da39a3ee5e6b4b0d3255bfef95601890afd80709.woff''"
       and b = "[]" and E = sample_env and d = "''x''"
       and face = "parse_props ('' font-family: '' @ [sq] @ ''Open Sans'' @ [sq]
                     @ ''; src: url(a.woff?v=1); '')"
       and rel = "''a.woff?v=1''" and base = "''https://h/f.css''"
       and u = "''https://h/a.woff?v=1''" and data = "[]" and p = "''/a.woff''"
       and ds = "[]" and faces = "parse_font_faces sample_css"
       and ?w0.0 = stocked_world and a = sample_args]
  note t2 = existing_files_untouched
    [where E = sample_env and ?w0.0 = empty_world and a = sample_args and ?w1.0 = w1
       and out = out]
  have c1: "write_font sample_env ''_da39a3ee5e6b4b0d3255bfef95601890afd80709.woff'' ''x''
              stocked_world = Inr stocked_world"
    using t1 f by blast
  have c2: "process_face sample_env ''https://h/f.css''
        (parse_props ('' font-family: '' @ [sq] @ ''Open Sans'' @ [sq]
                 @ ''; src: url(a.woff?v=1); '')) (stocked_world, [])
       = Inr (stocked_world\<lparr> fetched := fetched stocked_world @ [''https://h/a.woff?v=1''] \<rparr>,
              [] @ [make_descriptor
                     (parse_props ('' font-family: '' @ [sq] @ ''Open Sans'' @ [sq]
                         @ ''; src: url(a.woff?v=1); ''))
                     (resource_name_of (sha1_hex sample_env []))])"
    using t1 sample_face1_src r sample_env_values(1,3,5) sample_stocked_name by blast
  have c3: "files (final_world (run_faces sample_env ''https://h/f.css''
                (parse_font_faces sample_css) (stocked_world, [])))
       ''_da39a3ee5e6b4b0d3255bfef95601890afd80709.woff'' = Some []"
    using t1 f by blast
  have c4: "files (final_world (main sample_env sample_args stocked_world))
       ''_da39a3ee5e6b4b0d3255bfef95601890afd80709.woff'' = Some []"
    using t1 f sample_paths(1) by blast
  have c5: "bindings out = join_lines (kotlin_lines sample_args (descriptors out))
        \<and> downloaded out = length (descriptors out)
        \<and> read_bindings sample_env sample_args w1 = Some (encode_utf8 sample_env (bindings out))
        \<and> (\<exists>new. written w1 = written empty_world @ new \<and> distinct new
               \<and> set new \<inter> dom (files empty_world) = {})
        \<and> (\<exists>w2. main sample_env sample_args w1 = Inr (w2, out) \<and> files w2 = files w1
               \<and> written w2 = written w1 \<and> texts w2 = texts w1
               \<and> read_bindings sample_env sample_args w2
                   = Some (encode_utf8 sample_env (bindings out)))"
    using t2 m by blast
  from f c1 c2 c3 sample_paths(1) c4 m c5 show ?thesis by blast
qed

section \<open>The extension of a font file\<close>

text \<open>
  C9. For a face whose source resolves to the URL \<open>font_url\<close>, the file that the loop
  body writes is named by the resource name followed by the suffix of the path
  component of \<open>font_url\<close>, and by \<^verbatim>\<open>.woff2\<close> when that path has no suffix. Nothing of the
  URL but its path component enters the name, so a query string or a fragment does
  not.
\<close>

theorem font_file_extension:
  assumes "pick_url (face ''src'') = Some rel" and "rel \<noteq> []"
    and "urljoin E base rel = Some font_url"
    and "urlopen_read E font_url = Some data"
    and "urlparse_path E font_url = Some p"
    and "filename = resource_name_of (sha1_hex E data)
                    @ (if path_suffix E p = [] then ''.woff2'' else path_suffix E p)"
    and "files w filename = None" and "write_bytes_ok E filename"
  shows "process_face E base face (w, ds) =
           Inr (w\<lparr> fetched := fetched w @ [font_url],
                    files := (files w)(filename \<mapsto> data),
                    written := written w @ [filename] \<rparr>,
                ds @ [make_descriptor face (resource_name_of (sha1_hex E data))])"
  using assms by (simp add: process_face_fetch write_font_def ext_of_path_def)

theorem font_file_extension_witness:
  "process_face sample_env ''https://h/f.css''
     (parse_props ('' font-family: '' @ [sq] @ ''Open Sans'' @ [sq]
                 @ ''; src: url(a.woff?v=1); '')) (empty_world, [])
   = Inr (empty_world\<lparr> fetched := fetched empty_world @ [''https://h/a.woff?v=1''],
            files := (files empty_world)
               (''_da39a3ee5e6b4b0d3255bfef95601890afd80709.woff'' \<mapsto> []),
            written := written empty_world
               @ [''_da39a3ee5e6b4b0d3255bfef95601890afd80709.woff''] \<rparr>,
          [] @ [make_descriptor
                 (parse_props ('' font-family: '' @ [sq] @ ''Open Sans'' @ [sq]
                     @ ''; src: url(a.woff?v=1); ''))
                 (resource_name_of (sha1_hex sample_env []))])"
proof -
  have n: "''_da39a3ee5e6b4b0d3255bfef95601890afd80709.woff''
        = resource_name_of (sha1_hex sample_env [])
          @ (if path_suffix sample_env ''/a.woff'' = [] then ''.woff2''
             else path_suffix sample_env ''/a.woff'')"
    by (simp add: sample_env_values)
  have e: "files empty_world ''_da39a3ee5e6b4b0d3255bfef95601890afd80709.woff'' = None"
    by (simp add: empty_world_def)
  have k: "write_bytes_ok sample_env ''_da39a3ee5e6b4b0d3255bfef95601890afd80709.woff''"
    by (simp add: sample_env_def)
  have r: "''a.woff?v=1'' \<noteq> []" by simp
  from font_file_extension
    [where face = "parse_props ('' font-family: '' @ [sq] @ ''Open Sans'' @ [sq]
                     @ ''; src: url(a.woff?v=1); '')"
       and rel = "''a.woff?v=1''" and E = sample_env and base = "''https://h/f.css''"
       and font_url = "''https://h/a.woff?v=1''" and data = "[]" and p = "''/a.woff''"
       and filename = "''_da39a3ee5e6b4b0d3255bfef95601890afd80709.woff''"
       and w = empty_world and ds = "[]"]
    sample_face1_src r sample_env_values(1,3,5) n e k
  show ?thesis by blast
qed

section \<open>The head of the bindings file\<close>

text \<open>
  C3, as the claim states it, fails: the claim has three import lines and then a blank
  line, so that without a package the fourth line of the file is blank. The script
  emits four import lines, and the fourth line is the import of
  \<^verbatim>\<open>StaticFontDescriptorProvider\<close>; the blank line is the fifth.
\<close>

theorem three_import_lines_counterexample:
  "kotlin_lines sample_args [] =
     [''import your.package.generated.resources.Res'',
      ''import your.package.generated.resources.*'',
      ''import xyz.hyli.klyph.ResourceFontDescriptor'',
      ''import xyz.hyli.klyph.StaticFontDescriptorProvider'',
      [], []]
   \<and> kotlin_lines sample_args [] ! 3 \<noteq> []"
  by (simp add: kotlin_lines_def package_lines_def import_lines_def sample_args_def
      group_families_def)

text \<open>
  C3, amended. The lines of the bindings file are: the package line and a blank line
  when a package is given; then four fixed import lines, two of the resource package
  (its \<^verbatim>\<open>Res\<close> and all its members) and two of the classes \<^verbatim>\<open>ResourceFontDescriptor\<close> and
  \<^verbatim>\<open>StaticFontDescriptorProvider\<close> of the one library package \<^verbatim>\<open>xyz.hyli.klyph\<close>; then a
  blank line; then the provider declarations of the families and a last blank line.
\<close>

theorem four_import_lines:
  "kotlin_lines a ds =
     (if kotlin_package a = [] then [] else [''package '' @ kotlin_package a, []])
     @ [''import '' @ res_package a @ ''.Res'',
        ''import '' @ res_package a @ ''.*'',
        ''import xyz.hyli.klyph.ResourceFontDescriptor'',
        ''import xyz.hyli.klyph.StaticFontDescriptorProvider'',
        []]
     @ concat (map provider_lines (group_families ds))
     @ [[]]"
  by (simp add: kotlin_lines_def package_lines_def import_lines_def)

section \<open>Weight, style and unicode range\<close>

lemma lower_fixed: "list_all (\<lambda>c. lower_char c = c) (lower s)"
  by (induction s) (simp_all add: lower_def lower_char_idem)

lemma parse_weight_lower: "list_all (\<lambda>c. lower_char c = c) (parse_weight x)"
proof (cases x)
  case None
  then show ?thesis by (simp add: parse_weight_def lower_char_def)
next
  case (Some v)
  show ?thesis
  proof (cases "v = []")
    case True
    with Some show ?thesis by (simp add: parse_weight_def lower_char_def)
  next
    case False
    with Some show ?thesis by (simp add: parse_weight_def lower_fixed)
  qed
qed

lemma parse_style_weight: "parse_style x = parse_weight x"
  by (simp add: parse_style_def parse_weight_def)

lemma part_trans:
  assumes "\<exists>a b. y = a @ x @ b" "\<exists>c d. z = c @ y @ (d :: 'a list)"
  shows "\<exists>e f. z = e @ x @ f"
proof -
  from assms obtain a b c d where "y = a @ x @ b" "z = c @ y @ d" by blast
  then have "z = (c @ a) @ x @ (b @ d)" by simp
  then show ?thesis by blast
qed

lemma lstrip_part: "\<exists>a b. s = a @ lstrip s @ b"
proof -
  have "s = takeWhile is_space s @ lstrip s @ []" by (simp add: lstrip_def)
  then show ?thesis by blast
qed

lemma rstrip_part: "\<exists>a b. s = a @ rstrip s @ b"
proof -
  have a: "rev (dropWhile is_space (rev s)) @ rev (takeWhile is_space (rev s)) = s"
    by (simp only: rev_append [symmetric] takeWhile_dropWhile_id rev_rev_ident)
  have "s = [] @ rstrip s @ rev (takeWhile is_space (rev s))"
    by (simp only: rstrip_def append_Nil a)
  then show ?thesis by blast
qed

lemma strip_part: "\<exists>a b. s = a @ strip s @ b"
  unfolding strip_def using rstrip_part [of "lstrip s"] lstrip_part [of s] by (rule part_trans)

lemma butlast_tl_part: "\<exists>a b. v = a @ butlast (tl v) @ b"
proof (cases v)
  case Nil
  then show ?thesis by simp
next
  case (Cons x xs)
  show ?thesis
  proof (cases "xs = []")
    case True
    with Cons have "v = [] @ butlast (tl v) @ [x]" by simp
    then show ?thesis by blast
  next
    case False
    with Cons have "v = [x] @ butlast (tl v) @ [last xs]" by simp
    then show ?thesis by blast
  qed
qed

lemma clean_value_part: "\<exists>a b. v = a @ clean_value v @ b"
proof (cases "(startswith (strip v) dq \<and> endswith (strip v) dq)
             \<or> (startswith (strip v) sq \<and> endswith (strip v) sq)")
  case True
  then have "clean_value v = butlast (tl (strip v))" by (simp add: clean_value_def)
  with butlast_tl_part [of "strip v"] strip_part [of v] show ?thesis
    by (simp only:) (rule part_trans)
next
  case False
  then have "clean_value v = strip v" by (rule clean_value_unquoted(1))
  with strip_part [of v] show ?thesis by simp
qed

lemma parse_unicode_ranges_part: "\<exists>a b. v = a @ parse_unicode_ranges (Some v) @ b"
proof (cases "v = []")
  case True
  then show ?thesis by (simp add: parse_unicode_ranges_def)
next
  case False
  then have "parse_unicode_ranges (Some v) = strip (clean_value v)"
    by (simp add: parse_unicode_ranges_def)
  with strip_part [of "clean_value v"] clean_value_part [of v] show ?thesis
    by (simp only:) (rule part_trans)
qed

lemma parse_examples:
  "parse_weight (Some (dq # ''Bold'' @ [dq])) = ''bold''"
  "parse_weight (Some ''Bold'') = ''bold''"
  "parse_style (Some ''Italic'') = ''italic''"
  "parse_unicode_ranges (Some (dq # '' U+0000-00FF, U+0131 '' @ [dq])) = ''U+0000-00FF, U+0131''"
  by code_simp+

text \<open>
  C10. A weight or style that is present and not empty is the value with the quotes and
  the white space stripped and then lower-cased, so the descriptor of a face never
  holds an upper-case letter in them: \<^verbatim>\<open>"Bold"\<close> becomes \<^verbatim>\<open>bold\<close>. The unicode range is
  stripped in the same way and not lower-cased: it is a part of the value as it was
  written, letter for letter.
\<close>

theorem weight_style_lower_range_kept:
  "(v \<noteq> [] \<longrightarrow> parse_weight (Some v) = lower (strip (clean_value v))
              \<and> parse_style (Some v) = lower (strip (clean_value v))
              \<and> parse_unicode_ranges (Some v) = strip (clean_value v))
   \<and> list_all (\<lambda>c. lower_char c = c) (weight (make_descriptor face rn))
   \<and> list_all (\<lambda>c. lower_char c = c) (style (make_descriptor face rn))
   \<and> weight (make_descriptor face rn) = parse_weight (face ''font-weight'')
   \<and> style (make_descriptor face rn) = parse_style (face ''font-style'')
   \<and> ranges (make_descriptor face rn) = parse_unicode_ranges (face ''unicode-range'')
   \<and> (\<exists>a b. v = a @ parse_unicode_ranges (Some v) @ b)
   \<and> parse_weight (Some (dq # ''Bold'' @ [dq])) = ''bold''
   \<and> parse_style (Some ''Italic'') = ''italic''
   \<and> parse_unicode_ranges (Some (dq # '' U+0000-00FF, U+0131 '' @ [dq]))
       = ''U+0000-00FF, U+0131''"
  using parse_weight_lower [of "face ''font-weight''"]
    parse_weight_lower [of "face ''font-style''"]
    parse_unicode_ranges_part [of v] parse_examples
  by (simp add: parse_style_weight make_descriptor_def)
    (simp add: parse_weight_def parse_unicode_ranges_def)

theorem weight_style_lower_range_kept_witness:
  "''Bold'' \<noteq> [] \<and> parse_weight (Some ''Bold'') = lower (strip (clean_value ''Bold''))
   \<and> parse_weight (Some ''Bold'') = ''bold''
   \<and> parse_unicode_ranges (Some ''Bold'') = strip (clean_value ''Bold'')"
  using weight_style_lower_range_kept [of "''Bold''"] parse_examples(2)
  by simp

section \<open>The identifier of a family\<close>

lemma re_split_no_sep:
  assumes "dropWhile is_alnum_az s = []"
  shows "re_split_non_alnum s = [takeWhile is_alnum_az s]"
  by (subst re_split_non_alnum.simps) (simp only: assms list.case)

lemma re_split_sep:
  assumes "dropWhile is_alnum_az s = c # r"
  shows "re_split_non_alnum s
     = takeWhile is_alnum_az s # re_split_non_alnum (dropWhile (\<lambda>x. \<not> is_alnum_az x) r)"
  by (subst re_split_non_alnum.simps) (simp only: assms list.case)

lemma fragments_dropWhile:
  "filter (\<lambda>p. p \<noteq> []) (re_split_non_alnum (dropWhile (\<lambda>x. \<not> is_alnum_az x) s))
   = filter (\<lambda>p. p \<noteq> []) (re_split_non_alnum s)"
proof (cases s)
  case Nil
  then show ?thesis by simp
next
  case (Cons c r)
  show ?thesis
  proof (cases "is_alnum_az c")
    case True
    with Cons show ?thesis by simp
  next
    case False
    with Cons have "re_split_non_alnum s
        = [] # re_split_non_alnum (dropWhile (\<lambda>x. \<not> is_alnum_az x) r)"
      using re_split_sep [of s c r] by simp
    with Cons False show ?thesis by simp
  qed
qed

lemma fragments_symbols:
  assumes "list_all (\<lambda>c. \<not> is_alnum_az c) s"
  shows "filter (\<lambda>p. p \<noteq> []) (re_split_non_alnum s) = []"
proof -
  have "dropWhile (\<lambda>x. \<not> is_alnum_az x) s = []"
    using assms by (simp add: list_all_iff)
  with fragments_dropWhile [of s] have
    "filter (\<lambda>p. p \<noteq> []) (re_split_non_alnum s) = filter (\<lambda>p. p \<noteq> []) (re_split_non_alnum [])"
    by simp
  also have "\<dots> = []" by (simp add: re_split_no_sep)
  finally show ?thesis .
qed

lemma fragments_leading:
  assumes "list_all (\<lambda>c. \<not> is_alnum_az c) sep"
  shows "filter (\<lambda>p. p \<noteq> []) (re_split_non_alnum (sep @ rest))
       = filter (\<lambda>p. p \<noteq> []) (re_split_non_alnum rest)"
proof -
  have "dropWhile (\<lambda>x. \<not> is_alnum_az x) (sep @ rest) = dropWhile (\<lambda>x. \<not> is_alnum_az x) rest"
    using assms by (simp add: list_all_iff dropWhile_append2)
  with fragments_dropWhile [of "sep @ rest"] fragments_dropWhile [of rest]
  show ?thesis by simp
qed

lemma fragments_word:
  assumes "w \<noteq> []" "list_all is_alnum_az w" "sep \<noteq> []" "list_all (\<lambda>c. \<not> is_alnum_az c) sep"
  shows "filter (\<lambda>p. p \<noteq> []) (re_split_non_alnum (w @ sep @ rest))
       = w # filter (\<lambda>p. p \<noteq> []) (re_split_non_alnum rest)"
proof -
  from assms(3) obtain c sep' where sep: "sep = c # sep'" by (cases sep) auto
  with assms(4) have c: "\<not> is_alnum_az c" and sep': "list_all (\<lambda>c. \<not> is_alnum_az c) sep'"
    by simp_all
  have d: "dropWhile is_alnum_az (w @ sep @ rest) = c # (sep' @ rest)"
    using assms(2) c sep by (simp add: list_all_iff dropWhile_append2)
  have t: "takeWhile is_alnum_az (w @ sep @ rest) = w"
    using assms(2) c sep by (simp add: list_all_iff takeWhile_append2)
  have "re_split_non_alnum (w @ sep @ rest)
      = w # re_split_non_alnum (dropWhile (\<lambda>x. \<not> is_alnum_az x) (sep' @ rest))"
    using re_split_sep [OF d] t by simp
  then have "filter (\<lambda>p. p \<noteq> []) (re_split_non_alnum (w @ sep @ rest))
      = w # filter (\<lambda>p. p \<noteq> []) (re_split_non_alnum (sep' @ rest))"
    using assms(1) fragments_dropWhile [of "sep' @ rest"] by simp
  with fragments_leading [OF sep'] show ?thesis by simp
qed

lemma fragments_last_word:
  assumes "w \<noteq> []" "list_all is_alnum_az w"
  shows "filter (\<lambda>p. p \<noteq> []) (re_split_non_alnum w) = [w]"
proof -
  have "dropWhile is_alnum_az w = []" "takeWhile is_alnum_az w = w"
    using assms(2) by (simp_all add: list_all_iff)
  with re_split_no_sep [of w] assms(1) show ?thesis by simp
qed

lemma to_pascal_case_identifier:
  "list_all is_ident_char (to_pascal_case s) \<and> to_pascal_case s \<noteq> []
   \<and> (is_alpha_az (hd (to_pascal_case s)) \<or> hd (to_pascal_case s) = CHR ''_'')"
  using to_valid_identifier_all_ident to_valid_identifier_start
  by (simp add: to_pascal_case_def Let_def is_ident_char_underscore)

lemma to_pascal_case_examples:
  "to_pascal_case ''Open Sans'' = ''OpenSans''"
  "to_pascal_case ''my-font_2'' = ''MyFont2''"
  "to_pascal_case [] = ''_''"
  "to_pascal_case ''2 fast'' = ''_2Fast''"
  by code_simp+

text \<open>
  C6. The fragments of a family name are the non-empty pieces that \<^verbatim>\<open>re.split\<close> returns:
  separators in front vanish, a word of letters and digits followed by a run of other
  characters is the first fragment and the scan goes on behind the run, and a word at
  the end is the last fragment. The identifier is the concatenation of the fragments,
  each with its first character upper-cased, passed through \<^verbatim>\<open>to_valid_identifier\<close>, and
  a single underscore when there is no fragment, as for the empty name and for a name
  of other characters only. It always is an identifier: characters of \<^verbatim>\<open>[0-9A-Za-z_]\<close>
  with a letter or an underscore in front.
\<close>

theorem to_pascal_case_spec:
  "to_pascal_case ''Open Sans'' = ''OpenSans''
   \<and> to_pascal_case ''my-font_2'' = ''MyFont2''
   \<and> to_pascal_case [] = ''_''
   \<and> (list_all (\<lambda>c. \<not> is_alnum_az c) name \<longrightarrow> to_pascal_case name = ''_'')
   \<and> to_pascal_case name =
       (let parts = filter (\<lambda>p. p \<noteq> []) (re_split_non_alnum name)
        in if parts = [] then ''_''
           else to_valid_identifier (concat (map (\<lambda>p. upper (take 1 p) @ drop 1 p) parts)))
   \<and> (list_all (\<lambda>c. \<not> is_alnum_az c) sep \<longrightarrow>
        filter (\<lambda>p. p \<noteq> []) (re_split_non_alnum (sep @ rest))
          = filter (\<lambda>p. p \<noteq> []) (re_split_non_alnum rest))
   \<and> (w \<noteq> [] \<and> list_all is_alnum_az w \<and> sep \<noteq> [] \<and> list_all (\<lambda>c. \<not> is_alnum_az c) sep \<longrightarrow>
        filter (\<lambda>p. p \<noteq> []) (re_split_non_alnum (w @ sep @ rest))
          = w # filter (\<lambda>p. p \<noteq> []) (re_split_non_alnum rest))
   \<and> (w \<noteq> [] \<and> list_all is_alnum_az w \<longrightarrow>
        filter (\<lambda>p. p \<noteq> []) (re_split_non_alnum w) = [w])
   \<and> list_all is_ident_char (to_pascal_case name) \<and> to_pascal_case name \<noteq> []
   \<and> (is_alpha_az (hd (to_pascal_case name)) \<or> hd (to_pascal_case name) = CHR ''_'')"
proof -
  have a: "list_all (\<lambda>c. \<not> is_alnum_az c) name \<longrightarrow> to_pascal_case name = ''_''"
    by (simp add: to_pascal_case_def fragments_symbols)
  have b: "to_pascal_case name =
       (let parts = filter (\<lambda>p. p \<noteq> []) (re_split_non_alnum name)
        in if parts = [] then ''_''
           else to_valid_identifier (concat (map (\<lambda>p. upper (take 1 p) @ drop 1 p) parts)))"
    unfolding to_pascal_case_def capitalize_first_def [abs_def] by (rule refl)
  show ?thesis
    using to_pascal_case_examples(1-3) a b fragments_leading [of sep rest]
      fragments_word [of w sep rest] fragments_last_word [of w]
      to_pascal_case_identifier [of name]
    by blast
qed

theorem to_pascal_case_spec_witness:
  "list_all (\<lambda>c. \<not> is_alnum_az c) ''- !'' \<and> to_pascal_case ''- !'' = ''_''
   \<and> (''my'' \<noteq> [] \<and> list_all is_alnum_az ''my'' \<and> ''-'' \<noteq> []
      \<and> list_all (\<lambda>c. \<not> is_alnum_az c) ''-'')
   \<and> filter (\<lambda>p. p \<noteq> []) (re_split_non_alnum (''my'' @ ''-'' @ ''font_2''))
       = ''my'' # filter (\<lambda>p. p \<noteq> []) (re_split_non_alnum ''font_2'')
   \<and> filter (\<lambda>p. p \<noteq> []) (re_split_non_alnum ''my'') = [''my'']"
proof -
  have h1: "list_all (\<lambda>c. \<not> is_alnum_az c) ''- !''" by code_simp
  have h2: "''my'' \<noteq> [] \<and> list_all is_alnum_az ''my'' \<and> ''-'' \<noteq> []
      \<and> list_all (\<lambda>c. \<not> is_alnum_az c) ''-''" by code_simp
  from to_pascal_case_spec [of "''- !''" "''-''" "''font_2''" "''my''"] h1 h2
  show ?thesis by blast
qed

section \<open>Faces with identical binaries\<close>
















section \<open>The scan for font-face blocks\<close>

lemma lower_char_at: "lower_char c = CHR ''@'' \<Longrightarrow> c = CHR ''@''"
proof -
  assume a: "lower_char c = CHR ''@''"
  define n where "n = (of_char c :: nat)"
  have l: "lower_char c
      = (if (65 \<le> n \<and> n \<le> 90) \<or> (192 \<le> n \<and> n \<le> 222 \<and> n \<noteq> 215)
         then char_of (n + 32) else c)"
    by (simp add: lower_char_def Let_def n_def)
  show ?thesis
  proof (cases "(65 \<le> n \<and> n \<le> 90) \<or> (192 \<le> n \<and> n \<le> 222 \<and> n \<noteq> 215)")
    case True
    then have "lower_char c = char_of (n + 32)" by (simp only: l if_True)
    with a have "char_of (n + 32) = CHR ''@''" by simp
    then have "(of_char (char_of (n + 32)) :: nat) = of_char (CHR ''@'')"
      by simp
    then have m: "(n + 32) mod 256 = 64" by simp
    from True have "n + 32 < 256" by auto
    then have "(n + 32) mod 256 = n + 32" by (rule mod_less)
    with m True have False by auto
    then show ?thesis ..
  next
    case False
    then have "lower_char c = c" by (simp only: l if_False)
    with a show ?thesis by simp
  qed
qed

lemma takeWhile_until: "c \<notin> set xs \<Longrightarrow> takeWhile (\<lambda>x. x \<noteq> c) (xs @ c # ys) = xs"
  by (induction xs) auto

lemma dropWhile_until: "c \<notin> set xs \<Longrightarrow> dropWhile (\<lambda>x. x \<noteq> c) (xs @ c # ys) = c # ys"
  by (induction xs) auto

lemma keyword_lower: "lower ''@font-face'' = ''@font-face''"
  by code_simp

lemma keyword_length: "length ''@font-face'' = 10"
  by simp

lemma match_keyword_Some:
  "match_literal_ci ''@font-face'' s = Some r
   \<longleftrightarrow> 10 \<le> length s \<and> lower (take 10 s) = ''@font-face'' \<and> r = drop 10 s"
  unfolding match_literal_ci_def keyword_lower keyword_length by auto

lemma match_keyword_None:
  "match_literal_ci ''@font-face'' s = None
   \<longleftrightarrow> \<not> (10 \<le> length s \<and> lower (take 10 s) = ''@font-face'')"
  unfolding match_literal_ci_def keyword_lower keyword_length by auto

lemma keyword_starts:
  assumes "lower kw = ''@font-face''"
  shows "length kw = 10" and "\<exists>kw'. kw = CHR ''@'' # kw'"
proof -
  from assms have "length (lower kw) = length ''@font-face''" by simp
  then show l: "length kw = 10" by (simp add: lower_def)
  then obtain c kw' where k: "kw = c # kw'" by (cases kw) auto
  with assms have "lower_char c = CHR ''@''" by (simp add: lower_def)
  with k lower_char_at show "\<exists>kw'. kw = CHR ''@'' # kw'" by blast
qed

lemma match_literal_keyword:
  assumes "lower kw = ''@font-face''"
  shows "match_literal_ci ''@font-face'' (kw @ t) = Some t"
  using assms keyword_starts(1) [OF assms] by (simp add: match_keyword_Some)

lemma brace_not_space: "\<not> is_space (CHR ''{'')"
  by (simp add: is_space_def)

lemma FONT_FACE_RE_match_block:
  assumes "lower kw = ''@font-face''" "list_all is_space ws" "CHR ''}'' \<notin> set body"
  shows "FONT_FACE_RE_match (kw @ ws @ CHR ''{'' # body @ CHR ''}'' # rest) = Some (body, rest)"
proof -
  have d: "dropWhile is_space (ws @ CHR ''{'' # body @ CHR ''}'' # rest)
        = CHR ''{'' # body @ CHR ''}'' # rest"
    using assms(2) brace_not_space by (simp add: list_all_iff dropWhile_append2)
  have t: "takeWhile (\<lambda>x. x \<noteq> CHR ''}'') (body @ CHR ''}'' # rest) = body"
    using assms(3) by (rule takeWhile_until)
  have e: "dropWhile (\<lambda>x. x \<noteq> CHR ''}'') (body @ CHR ''}'' # rest) = CHR ''}'' # rest"
    using assms(3) by (rule dropWhile_until)
  show ?thesis
    by (simp add: FONT_FACE_RE_match_def match_literal_keyword [OF assms(1)] d t e)
qed

lemma FONT_FACE_RE_match_Some:
  assumes "FONT_FACE_RE_match s = Some (body, rest)"
  shows "\<exists>kw ws. s = kw @ ws @ CHR ''{'' # body @ CHR ''}'' # rest
           \<and> lower kw = ''@font-face'' \<and> list_all is_space ws \<and> CHR ''}'' \<notin> set body"
proof -
  from assms obtain r r2 c where
    m: "match_literal_ci ''@font-face'' s = Some r"
    and d: "dropWhile is_space r = CHR ''{'' # r2"
    and e: "dropWhile (\<lambda>x. x \<noteq> CHR ''}'') r2 = c # rest"
    and b: "body = takeWhile (\<lambda>x. x \<noteq> CHR ''}'') r2"
    by (auto simp: FONT_FACE_RE_match_def split: option.splits list.splits if_splits)
  from m have r: "r = drop 10 s" and k: "lower (take 10 s) = ''@font-face''"
    by (simp_all add: match_keyword_Some)
  from e have c: "c = CHR ''}''"
    using hd_dropWhile [of "\<lambda>x. x \<noteq> CHR ''}''" r2] by auto
  have "r2 = body @ CHR ''}'' # rest"
    using takeWhile_dropWhile_id [of "\<lambda>x. x \<noteq> CHR ''}''" r2] b e c by simp
  moreover have "r = takeWhile is_space r @ CHR ''{'' # r2"
    using takeWhile_dropWhile_id [of is_space r] d by simp
  moreover have "s = take 10 s @ r"
    using r by simp
  ultimately have "s = take 10 s @ takeWhile is_space r @ CHR ''{'' # body @ CHR ''}'' # rest"
    by simp
  moreover have "list_all is_space (takeWhile is_space r)"
    by (auto simp: list_all_iff dest: set_takeWhileD)
  moreover have "CHR ''}'' \<notin> set body"
    using b by (auto dest: set_takeWhileD)
  ultimately show ?thesis using k by blast
qed

lemma FONT_FACE_RE_findall_match:
  "FONT_FACE_RE_match s = Some (body, rest) \<Longrightarrow>
   FONT_FACE_RE_findall s = body # FONT_FACE_RE_findall rest"
  by (subst FONT_FACE_RE_findall.simps) simp

lemma FONT_FACE_RE_findall_no_match:
  "FONT_FACE_RE_match (c # t) = None \<Longrightarrow> FONT_FACE_RE_findall (c # t) = FONT_FACE_RE_findall t"
  by (subst FONT_FACE_RE_findall.simps) simp

lemma FONT_FACE_RE_findall_Nil: "FONT_FACE_RE_findall [] = []"
proof -
  have "match_literal_ci ''@font-face'' [] = None" by (simp add: match_keyword_None)
  then have "FONT_FACE_RE_match [] = None" by (simp add: FONT_FACE_RE_match_def)
  then show ?thesis by (subst FONT_FACE_RE_findall.simps) simp
qed

lemma FONT_FACE_RE_findall_skip:
  assumes "\<forall>i<length pre. FONT_FACE_RE_match (drop i pre @ t) = None"
  shows "FONT_FACE_RE_findall (pre @ t) = FONT_FACE_RE_findall t"
  using assms
proof (induction pre)
  case Nil
  then show ?case by simp
next
  case (Cons c pre)
  from Cons.prems have "FONT_FACE_RE_match (drop 0 (c # pre) @ t) = None" by blast
  then have "FONT_FACE_RE_findall ((c # pre) @ t) = FONT_FACE_RE_findall (pre @ t)"
    by (simp add: FONT_FACE_RE_findall_no_match)
  moreover have "\<forall>i<length pre. FONT_FACE_RE_match (drop i pre @ t) = None"
  proof (intro allI impI)
    fix i assume "i < length pre"
    then have "Suc i < length (c # pre)" by simp
    with Cons.prems have "FONT_FACE_RE_match (drop (Suc i) (c # pre) @ t) = None" by blast
    then show "FONT_FACE_RE_match (drop i pre @ t) = None" by simp
  qed
  ultimately show ?case using Cons.IH by simp
qed

lemma no_keyword_no_match:
  assumes "\<not> has_font_face_keyword pre" "i < length pre" "t = [] \<or> hd t = CHR ''@''"
  shows "FONT_FACE_RE_match (drop i pre @ t) = None"
proof -
  let ?d = "drop i pre"
  have n: "match_literal_ci ''@font-face'' ?d = None"
    using assms(1,2) by (auto simp: has_font_face_keyword_def list_ex_iff)
  have "match_literal_ci ''@font-face'' (?d @ t) = None"
  proof (rule ccontr)
    assume "match_literal_ci ''@font-face'' (?d @ t) \<noteq> None"
    then have len: "10 \<le> length (?d @ t)"
      and low: "lower (take 10 (?d @ t)) = ''@font-face''"
      by (simp_all only: match_keyword_None not_not)
    show False
    proof (cases "10 \<le> length ?d")
      case True
      with low have "match_literal_ci ''@font-face'' ?d \<noteq> None"
        by (simp add: match_keyword_None)
      with n show False by simp
    next
      case False
      with len have tne: "t \<noteq> []" by auto
      with assms(3) obtain t' where t: "t = CHR ''@'' # t'" by (cases t) auto
      from assms(2) obtain c d' where d: "?d = c # d'" by (cases ?d) auto
      have tk: "take 10 (?d @ t) = ?d @ CHR ''@'' # take (9 - length ?d) t'"
        using False t by (simp add: take_Cons')
      from low have "lower (?d @ CHR ''@'' # take (9 - length ?d) t') = ''@font-face''"
        by (simp only: tk)
      then have "lower_char c # map lower_char d' @ lower_char (CHR ''@'')
                   # map lower_char (take (9 - length ?d) t') = ''@font-face''"
        by (simp only: d lower_def list.map map_append append_Cons)
      then have eq: "map lower_char d' @ lower_char (CHR ''@'')
                   # map lower_char (take (9 - length ?d) t') = ''font-face''"
        by simp
      have "lower_char (CHR ''@'') \<in> set (map lower_char d' @ lower_char (CHR ''@'')
                   # map lower_char (take (9 - length ?d) t'))"
        by simp
      then have "lower_char (CHR ''@'') \<in> set ''font-face''"
        by (simp only: eq)
      then show False by (simp add: lower_char_def)
    qed
  qed
  then show ?thesis by (simp add: FONT_FACE_RE_match_def)
qed

lemma FONT_FACE_RE_findall_no_keyword:
  assumes "\<not> has_font_face_keyword s"
  shows "FONT_FACE_RE_findall s = []"
proof -
  have "\<forall>i<length s. FONT_FACE_RE_match (drop i s @ []) = None"
  proof (intro allI impI)
    fix i assume "i < length s"
    from no_keyword_no_match [OF assms this, of "[]"]
    show "FONT_FACE_RE_match (drop i s @ []) = None" by simp
  qed
  from FONT_FACE_RE_findall_skip [OF this] show ?thesis
    by (simp add: FONT_FACE_RE_findall_Nil)
qed

lemma FONT_FACE_RE_findall_block:
  assumes "\<not> has_font_face_keyword pre"
    and "lower kw = ''@font-face''" "list_all is_space ws" "CHR ''}'' \<notin> set body"
  shows "FONT_FACE_RE_findall (pre @ kw @ ws @ CHR ''{'' # body @ CHR ''}'' # post)
       = body # FONT_FACE_RE_findall post"
proof -
  let ?t = "kw @ ws @ CHR ''{'' # body @ CHR ''}'' # post"
  from keyword_starts(2) [OF assms(2)] have "hd ?t = CHR ''@''" by auto
  then have "\<forall>i<length pre. FONT_FACE_RE_match (drop i pre @ ?t) = None"
    using no_keyword_no_match [OF assms(1)] by blast
  from FONT_FACE_RE_findall_skip [OF this]
  have "FONT_FACE_RE_findall (pre @ ?t) = FONT_FACE_RE_findall ?t" .
  also have "\<dots> = body # FONT_FACE_RE_findall post"
    using FONT_FACE_RE_match_block [OF assms(2-4)] by (rule FONT_FACE_RE_findall_match)
  finally show ?thesis .
qed

section \<open>The scan for declarations\<close>

lemma space_not_name_char: "is_space c \<Longrightarrow> \<not> is_prop_name_char c"
  by (auto simp: is_space_def is_prop_name_char_def is_alpha_az_def is_upper_az_def
      is_lower_az_def Let_def)

lemma colon_facts: "\<not> is_prop_name_char (CHR '':'')" "\<not> is_space (CHR '':'')"
  by (simp_all add: is_prop_name_char_def is_alpha_az_def is_upper_az_def is_lower_az_def
      is_space_def)

lemma semicolon_not_space: "\<not> is_space (CHR '';'')"
  by (simp add: is_space_def)

lemma foldl_set_prop:
  "foldl set_prop m pairs
     = m ++ map_of (rev (map (\<lambda>nv. (lower (strip (fst nv)), strip (snd nv))) pairs))"
proof (induction pairs arbitrary: m)
  case Nil
  then show ?case by simp
next
  case (Cons p ps)
  let ?norm = "\<lambda>nv. (lower (strip (fst nv)), strip (snd nv))"
  have "foldl set_prop m (p # ps) = set_prop m p ++ map_of (rev (map ?norm ps))"
    using Cons.IH [of "set_prop m p"] by simp
  also have "\<dots> = m ++ (map_of [?norm p] ++ map_of (rev (map ?norm ps)))"
    by (rule ext) (simp add: set_prop_def map_add_def split: option.splits)
  also have "map_of [?norm p] ++ map_of (rev (map ?norm ps))
             = map_of (rev (map ?norm (p # ps)))"
    by (simp only: list.map rev.simps map_of_append)
  finally show ?case .
qed

lemma parse_props_map_of:
  "parse_props block
     = map_of (rev (map (\<lambda>nv. (lower (strip (fst nv)), strip (snd nv))) (PROP_RE_findall block)))"
  by (simp add: parse_props_def foldl_set_prop)

lemma PROP_RE_match_decl:
  assumes "name \<noteq> []" "list_all is_prop_name_char name" "list_all is_space ws1"
    and "val \<noteq> []" "CHR '';'' \<notin> set val"
  shows "PROP_RE_match (name @ ws1 @ CHR '':'' # val @ CHR '';'' # rest)
       = Some ((name, if dropWhile is_space val = [] then [last val]
                      else dropWhile is_space val), rest)"
proof -
  let ?after = "ws1 @ CHR '':'' # val @ CHR '';'' # rest"
  have stop: "\<not> is_prop_name_char (hd ?after)"
    using assms(3) colon_facts(1) space_not_name_char by (cases ws1) auto
  have after: "?after \<noteq> []" by simp
  have tn: "takeWhile is_prop_name_char (name @ ?after) = name"
  proof -
    from after obtain y ys where y: "?after = y # ys" by (cases ?after) auto
    with stop have "\<not> is_prop_name_char y" by simp
    then have "takeWhile is_prop_name_char (name @ y # ys) = takeWhile is_prop_name_char name"
      by (rule takeWhile_tail)
    with y assms(2) show ?thesis by (simp add: list_all_iff)
  qed
  have dn: "dropWhile is_prop_name_char (name @ ?after) = ?after"
  proof -
    from after obtain y ys where y: "?after = y # ys" by (cases ?after) auto
    with stop have "\<not> is_prop_name_char y" by simp
    then have "dropWhile is_prop_name_char (name @ y # ys)
                 = dropWhile is_prop_name_char name @ y # ys"
      by (rule dropWhile_append3)
    with y assms(2) show ?thesis by (simp add: list_all_iff)
  qed
  have ds: "dropWhile is_space ?after = CHR '':'' # val @ CHR '';'' # rest"
    using dropWhile_append3 [of is_space "CHR '':''" ws1 "val @ CHR '';'' # rest"]
      colon_facts(2) assms(3) by (simp add: list_all_iff)
  have tw: "takeWhile is_space (val @ CHR '';'' # rest) = takeWhile is_space val"
    using semicolon_not_space by (rule takeWhile_tail)
  have dw: "dropWhile is_space (val @ CHR '';'' # rest) = dropWhile is_space val @ CHR '';'' # rest"
    using semicolon_not_space by (rule dropWhile_append3)
  have nv: "CHR '';'' \<notin> set (dropWhile is_space val)"
    using assms(5) by (auto dest: set_dropWhileD)
  have tv: "takeWhile (\<lambda>x. x \<noteq> CHR '';'') (dropWhile is_space val @ CHR '';'' # rest)
              = dropWhile is_space val"
    using nv by (rule takeWhile_until)
  have dv: "dropWhile (\<lambda>x. x \<noteq> CHR '';'') (dropWhile is_space val @ CHR '';'' # rest)
              = CHR '';'' # rest"
    using nv by (rule dropWhile_until)
  have gen: "PROP_RE_match (name @ ?after)
      = (if dropWhile is_space val \<noteq> [] then Some ((name, dropWhile is_space val), rest)
         else if takeWhile is_space val \<noteq> []
              then Some ((name, [last (takeWhile is_space val)]), rest)
              else None)"
    by (simp add: PROP_RE_match_def Let_def tn dn ds tw dw tv dv assms(1))
  show ?thesis
  proof (cases "dropWhile is_space val = []")
    case True
    have "takeWhile is_space val @ dropWhile is_space val = val"
      by (rule takeWhile_dropWhile_id)
    then have t: "takeWhile is_space val = val" by (simp only: True append_Nil2)
    show ?thesis using assms(4) by (simp only: gen True t) simp
  next
    case False
    then show ?thesis by (simp only: gen) simp
  qed
qed

lemma PROP_RE_findall_match:
  "PROP_RE_match s = Some (pair, rest) \<Longrightarrow> PROP_RE_findall s = pair # PROP_RE_findall rest"
  by (subst PROP_RE_findall.simps) simp

lemma PROP_RE_findall_no_match:
  "PROP_RE_match (c # t) = None \<Longrightarrow> PROP_RE_findall (c # t) = PROP_RE_findall t"
  by (subst PROP_RE_findall.simps) simp

lemma PROP_RE_findall_junk:
  "list_all (\<lambda>c. \<not> is_prop_name_char c) junk \<Longrightarrow>
   PROP_RE_findall (junk @ t) = PROP_RE_findall t"
proof (induction junk)
  case Nil
  then show ?case by simp
next
  case (Cons c junk)
  then have "PROP_RE_match (c # junk @ t) = None"
    by (simp add: PROP_RE_match_def)
  then have "PROP_RE_findall (c # junk @ t) = PROP_RE_findall (junk @ t)"
    by (rule PROP_RE_findall_no_match)
  with Cons show ?case by simp
qed

lemma strip_no_space:
  assumes "list_all (\<lambda>c. \<not> is_space c) s"
  shows "strip s = s"
proof -
  have "dropWhile is_space s = s" using assms by (cases s) auto
  moreover have "dropWhile is_space (rev s) = rev s"
    using assms by (cases "rev s") (auto simp: list_all_iff)
  ultimately show ?thesis by (simp add: strip_def lstrip_def rstrip_def)
qed

lemma strip_group_value:
  assumes "val \<noteq> []"
  shows "strip (if dropWhile is_space val = [] then [last val] else dropWhile is_space val)
           = strip val"
proof (cases "dropWhile is_space val = []")
  case True
  then have "is_space (last val)" using assms by simp
  then have "strip [last val] = []" by (simp add: strip_def lstrip_def rstrip_def)
  moreover have "strip val = []" by (simp add: strip_def lstrip_def rstrip_def True)
  ultimately show ?thesis using True by simp
next
  case False
  have "strip (dropWhile is_space val) = strip val"
    by (simp add: strip_def lstrip_def)
  then show ?thesis by (simp only: False if_False)
qed

lemma parse_props_decl:
  assumes "list_all (\<lambda>c. \<not> is_prop_name_char c) junk"
    and "name \<noteq> []" "list_all is_prop_name_char name" "list_all is_space ws1"
    and "val \<noteq> []" "CHR '';'' \<notin> set val"
  shows "parse_props (junk @ name @ ws1 @ CHR '':'' # val @ CHR '';'' # rest)
         = [lower name \<mapsto> strip val] ++ parse_props rest"
proof -
  let ?g = "if dropWhile is_space val = [] then [last val] else dropWhile is_space val"
  let ?norm = "\<lambda>nv. (lower (strip (fst nv)), strip (snd nv))"
  have "PROP_RE_findall (junk @ name @ ws1 @ CHR '':'' # val @ CHR '';'' # rest)
          = PROP_RE_findall (name @ ws1 @ CHR '':'' # val @ CHR '';'' # rest)"
    using assms(1) by (rule PROP_RE_findall_junk)
  also have "\<dots> = (name, ?g) # PROP_RE_findall rest"
    using PROP_RE_match_decl [OF assms(2-6)] by (rule PROP_RE_findall_match)
  finally have f: "PROP_RE_findall (junk @ name @ ws1 @ CHR '':'' # val @ CHR '';'' # rest)
          = (name, ?g) # PROP_RE_findall rest" .
  have "list_all (\<lambda>c. \<not> is_space c) name"
    using assms(3) space_not_name_char by (auto simp: list_all_iff)
  then have n: "strip name = name" by (rule strip_no_space)
  have g: "strip ?g = strip val" using assms(5) by (rule strip_group_value)
  have "?norm (name, ?g) = (lower name, strip val)"
    using n g by simp
  then have "map_of (rev (map ?norm ((name, ?g) # PROP_RE_findall rest)))
      = map_of [(lower name, strip val)] ++ map_of (rev (map ?norm (PROP_RE_findall rest)))"
    by (simp only: list.map rev.simps map_of_append)
  then show ?thesis
    by (simp only: parse_props_map_of f) simp
qed

section \<open>The font-face parser\<close>

lemma PROP_RE_findall_empty_props: "PROP_RE_findall block = [] \<Longrightarrow> parse_props block = Map.empty"
  by (simp add: parse_props_def)

lemma parse_font_faces_no_keyword:
  "\<not> has_font_face_keyword css \<Longrightarrow> parse_font_faces css = []"
  by (simp add: parse_font_faces_def FONT_FACE_RE_findall_no_keyword)

lemma parse_font_faces_block:
  assumes "\<not> has_font_face_keyword pre"
    and "lower kw = ''@font-face''" "list_all is_space ws" "CHR ''}'' \<notin> set body"
  shows "parse_font_faces (pre @ kw @ ws @ CHR ''{'' # body @ CHR ''}'' # post)
       = parse_props body # parse_font_faces post"
  by (simp add: parse_font_faces_def FONT_FACE_RE_findall_block [OF assms])

lemma FONT_FACE_RE_match_iff:
  "FONT_FACE_RE_match s = Some (body, rest)
   \<longleftrightarrow> (\<exists>k w. s = k @ w @ CHR ''{'' # body @ CHR ''}'' # rest
              \<and> lower k = ''@font-face'' \<and> list_all is_space w \<and> CHR ''}'' \<notin> set body)"
  using FONT_FACE_RE_match_Some [of s body rest] FONT_FACE_RE_match_block [of _ _ body rest]
  by blast

lemma sample_scan_facts:
  "\<not> has_font_face_keyword ''p { color: red; }''"
  "\<not> has_font_face_keyword ''} @media x { ''"
  "lower ''@Font-Face'' = ''@font-face''"
  "list_all is_space '' ''"
  "CHR ''}'' \<notin> set '' SRC : url(x) ; src:y;''"
  "list_all (\<lambda>c. \<not> is_prop_name_char c) '' ''"
  "''SRC'' \<noteq> []"
  "list_all is_prop_name_char ''SRC''"
  "'' url(x) '' \<noteq> []"
  "CHR '';'' \<notin> set '' url(x) ''"
  "PROP_RE_findall ''}{'' = []"
  by code_simp+

text \<open>
  C2. \<^verbatim>\<open>parse_font_faces\<close> returns one properties mapping for each match that the scan
  for the block pattern finds, in the order of the text. A match at a position is the
  keyword in any letter case, white space, an opening brace, a body without closing
  brace, and the first closing brace behind it. Where the keyword starts nowhere in a
  text the result is empty, and where it starts nowhere in front of a block, whatever
  braces stand there, the first mapping is the one of that block and the scan goes on
  behind its closing brace. The mapping of a body holds, for each name, the value of
  the last pair of that name that the scan for declarations finds, under the
  lower-cased name and with the white space around the value stripped: a declaration
  in front of a text adds its pair to the mapping of the text, which overrides it for
  the same name. A body without a pair has the empty mapping.
\<close>

theorem parse_font_faces_spec:
  "parse_font_faces css = map parse_props (FONT_FACE_RE_findall css)
   \<and> length (parse_font_faces css) = length (FONT_FACE_RE_findall css)
   \<and> (FONT_FACE_RE_match s = Some (body, rest)
        \<longleftrightarrow> (\<exists>k w. s = k @ w @ CHR ''{'' # body @ CHR ''}'' # rest
                   \<and> lower k = ''@font-face'' \<and> list_all is_space w
                   \<and> CHR ''}'' \<notin> set body))
   \<and> (\<not> has_font_face_keyword css \<longrightarrow> parse_font_faces css = [])
   \<and> (\<not> has_font_face_keyword pre \<and> lower kw = ''@font-face'' \<and> list_all is_space ws
        \<and> CHR ''}'' \<notin> set body \<longrightarrow>
        parse_font_faces (pre @ kw @ ws @ CHR ''{'' # body @ CHR ''}'' # post)
          = parse_props body # parse_font_faces post)
   \<and> parse_props block
        = map_of (rev (map (\<lambda>nv. (lower (strip (fst nv)), strip (snd nv)))
                         (PROP_RE_findall block)))
   \<and> (list_all (\<lambda>c. \<not> is_prop_name_char c) junk \<and> name \<noteq> []
        \<and> list_all is_prop_name_char name \<and> list_all is_space ws1 \<and> val \<noteq> []
        \<and> CHR '';'' \<notin> set val \<longrightarrow>
        parse_props (junk @ name @ ws1 @ CHR '':'' # val @ CHR '';'' # tail)
          = [lower name \<mapsto> strip val] ++ parse_props tail)
   \<and> (PROP_RE_findall block = [] \<longrightarrow> parse_props block = Map.empty)"
proof -
  have a: "parse_font_faces css = map parse_props (FONT_FACE_RE_findall css)"
    by (simp add: parse_font_faces_def)
  then have b: "length (parse_font_faces css) = length (FONT_FACE_RE_findall css)"
    by simp
  note c = FONT_FACE_RE_match_iff [of s body rest]
  have d: "\<not> has_font_face_keyword css \<longrightarrow> parse_font_faces css = []"
    using parse_font_faces_no_keyword [of css] by blast
  have e: "\<not> has_font_face_keyword pre \<and> lower kw = ''@font-face'' \<and> list_all is_space ws
        \<and> CHR ''}'' \<notin> set body \<longrightarrow>
        parse_font_faces (pre @ kw @ ws @ CHR ''{'' # body @ CHR ''}'' # post)
          = parse_props body # parse_font_faces post"
    using parse_font_faces_block [of pre kw ws body post] by blast
  note f = parse_props_map_of [of block]
  have g: "list_all (\<lambda>c. \<not> is_prop_name_char c) junk \<and> name \<noteq> []
        \<and> list_all is_prop_name_char name \<and> list_all is_space ws1 \<and> val \<noteq> []
        \<and> CHR '';'' \<notin> set val \<longrightarrow>
        parse_props (junk @ name @ ws1 @ CHR '':'' # val @ CHR '';'' # tail)
          = [lower name \<mapsto> strip val] ++ parse_props tail"
    using parse_props_decl [of junk name ws1 val tail] by blast
  have h: "PROP_RE_findall block = [] \<longrightarrow> parse_props block = Map.empty"
    using PROP_RE_findall_empty_props [of block] by blast
  from a b c d e f g h show ?thesis by (intro conjI)
qed

theorem parse_font_faces_spec_witness:
  "\<not> has_font_face_keyword ''p { color: red; }''
   \<and> parse_font_faces ''p { color: red; }'' = []
   \<and> (\<not> has_font_face_keyword ''} @media x { '' \<and> lower ''@Font-Face'' = ''@font-face''
        \<and> list_all is_space '' '' \<and> CHR ''}'' \<notin> set '' SRC : url(x) ; src:y;'')
   \<and> parse_font_faces (''} @media x { '' @ ''@Font-Face'' @ '' '' @ CHR ''{''
        # '' SRC : url(x) ; src:y;'' @ CHR ''}'' # '' }'')
       = parse_props '' SRC : url(x) ; src:y;'' # parse_font_faces '' }''
   \<and> (list_all (\<lambda>c. \<not> is_prop_name_char c) '' '' \<and> ''SRC'' \<noteq> []
        \<and> list_all is_prop_name_char ''SRC'' \<and> list_all is_space '' '' \<and> '' url(x) '' \<noteq> []
        \<and> CHR '';'' \<notin> set '' url(x) '')
   \<and> parse_props ('' '' @ ''SRC'' @ '' '' @ CHR '':'' # '' url(x) '' @ CHR '';'' # '' src:y;'')
       = [lower ''SRC'' \<mapsto> strip '' url(x) ''] ++ parse_props '' src:y;''
   \<and> PROP_RE_findall ''}{'' = [] \<and> parse_props ''}{'' = Map.empty"
proof -
  note t = parse_font_faces_spec
    [where css = "''p { color: red; }''" and pre = "''} @media x { ''" and kw = "''@Font-Face''"
       and ws = "'' ''" and body = "'' SRC : url(x) ; src:y;''" and post = "'' }''"
       and junk = "'' ''" and name = "''SRC''" and ?ws1.0 = "'' ''" and val = "'' url(x) ''"
       and tail = "'' src:y;''" and block = "''}{''"]
  note k = sample_scan_facts
  have h1: "\<not> has_font_face_keyword ''} @media x { '' \<and> lower ''@Font-Face'' = ''@font-face''
        \<and> list_all is_space '' '' \<and> CHR ''}'' \<notin> set '' SRC : url(x) ; src:y;''"
    using k(2,3,4,5) by (intro conjI)
  have h2: "list_all (\<lambda>c. \<not> is_prop_name_char c) '' '' \<and> ''SRC'' \<noteq> []
        \<and> list_all is_prop_name_char ''SRC'' \<and> list_all is_space '' '' \<and> '' url(x) '' \<noteq> []
        \<and> CHR '';'' \<notin> set '' url(x) ''"
    using k(6,7,8,4,9,10) by (intro conjI)
  from t k(1) have r1: "parse_font_faces ''p { color: red; }'' = []" by blast
  from t h1 have r2: "parse_font_faces (''} @media x { '' @ ''@Font-Face'' @ '' '' @ CHR ''{''
        # '' SRC : url(x) ; src:y;'' @ CHR ''}'' # '' }'')
       = parse_props '' SRC : url(x) ; src:y;'' # parse_font_faces '' }''" by blast
  from t h2 have r3:
    "parse_props ('' '' @ ''SRC'' @ '' '' @ CHR '':'' # '' url(x) '' @ CHR '';'' # '' src:y;'')
       = [lower ''SRC'' \<mapsto> strip '' url(x) ''] ++ parse_props '' src:y;''" by blast
  from t k(11) have r4: "parse_props ''}{'' = Map.empty" by blast
  from k(1) r1 h1 r2 h2 r3 k(11) r4 show ?thesis by blast
qed

end
